theory Spec2Isabelle
  imports Main "HOL-Library.Word" "HOL-Library.Multiset" "HOL-Library.AList"
begin

unbundle bit_operations_syntax

section \<open>The fairness contracts (PokerEntropyDealer, PokerEntropyDealerV2)\<close>

subsection \<open>Solidity value types and packed encoding\<close>

type_synonym uint8 = "8 word"
type_synonym uint64 = "64 word"
type_synonym uint256 = "256 word"
type_synonym bytes32 = "256 word"
type_synonym address = "160 word"
type_synonym bytes = "8 word list"

text \<open>
  \<^verbatim>\<open>abi.encodePacked\<close> of a 256-bit value is its 32 bytes, most significant first; of a
  \<^verbatim>\<open>uint8\<close> it is the single byte. \<^verbatim>\<open>keccak256\<close> is a builtin of the EVM: every function
  below that hashes takes it as the parameter \<open>keccak256 :: bytes \<Rightarrow> bytes32\<close>.
\<close>

definition encode_word256 :: "uint256 \<Rightarrow> bytes" where
  "encode_word256 w = map (\<lambda>k. ucast (drop_bit (8 * (31 - k)) w)) [0..<32]"

definition encodePacked_uint256_uint8 :: "uint256 \<Rightarrow> uint8 \<Rightarrow> bytes" where
  "encodePacked_uint256_uint8 s i = encode_word256 s @ [i]"

definition encodePacked_bytes32 :: "bytes32 \<Rightarrow> bytes" where
  "encodePacked_bytes32 salt = encode_word256 salt"

definition encodePacked_bytes32_bytes32 :: "bytes32 \<Rightarrow> bytes32 \<Rightarrow> bytes" where
  "encodePacked_bytes32_bytes32 a b = encode_word256 a @ encode_word256 b"

subsection \<open>The deterministic shuffle\<close>

text \<open>
  \<^verbatim>\<open>_shuffle\<close> is the same function in both contracts. Its first loop writes \<open>deck[i] = i\<close>
  for \<open>i < 52\<close>; the second is the Fisher-Yates loop, \<open>i\<close> a \<^verbatim>\<open>uint8\<close> running from 51
  down to 1; the third copies the 52 cells into the byte string that is returned.
\<close>

definition initial_deck :: "uint8 list" where
  "initial_deck = map word_of_nat [0..<52]"

function shuffle_loop :: "(bytes \<Rightarrow> bytes32) \<Rightarrow> uint8 \<Rightarrow> uint256 \<Rightarrow> uint8 list \<Rightarrow> uint8 list" where
  "shuffle_loop keccak256 i s deck =
     (if 0 < i then
        (let s' = keccak256 (encodePacked_uint256_uint8 s i);
             j = (ucast (s' mod ucast (i + 1)) :: uint8);
             temp = deck ! unat i;
             deck1 = deck[unat i := deck ! unat j];
             deck2 = deck1[unat j := temp]
         in shuffle_loop keccak256 (i - 1) s' deck2)
      else deck)"
  by pat_completeness auto
termination
  by (relation "measure (\<lambda>(h, i, s, deck). unat i)")
     (auto simp: unat_minus_one word_greater_zero_iff unat_gt_0)

declare shuffle_loop.simps [simp del]

definition pack_deck :: "uint8 list \<Rightarrow> bytes" where
  "pack_deck deck = map (\<lambda>k. deck ! k) [0..<52]"

definition shuffle :: "(bytes \<Rightarrow> bytes32) \<Rightarrow> bytes32 \<Rightarrow> bytes" where
  "shuffle keccak256 seed = pack_deck (shuffle_loop keccak256 51 seed initial_deck)"

subsection \<open>The commitment ledger (PokerEntropyDealerV2)\<close>

record GameSession =
  saltHash :: bytes32
  pythSeed :: bytes32
  revealedSalt :: bytes32
  host :: address
  sequenceNumber :: uint64
  vrfFulfilled :: bool
  gameEnded :: bool
  verified :: bool

datatype event =
    SaltCommitted bytes32 bytes32 address
  | ShuffleRequested bytes32 uint64
  | VRFFulfilled bytes32 bytes32
  | GameVerified bytes32 bytes32 bytes32 bool

text \<open>
  The contract's storage: the two mappings (a Solidity mapping is total, every key holding
  the zero value until written) and the events emitted so far.
\<close>

record DealerV2 =
  games :: "bytes32 \<Rightarrow> GameSession"
  seqToGameId :: "uint64 \<Rightarrow> bytes32"
  events :: "event list"

text \<open>A failed \<^verbatim>\<open>require\<close> reverts with its message.\<close>

datatype revert = Revert string

definition commitSalt :: "address \<Rightarrow> bytes32 \<Rightarrow> bytes32 \<Rightarrow> DealerV2 \<Rightarrow> revert + (unit \<times> DealerV2)" where
  "commitSalt sender gameId sHash st =
     (if saltHash (games st gameId) \<noteq> 0 then Inl (Revert ''already committed'')
      else if sHash = 0 then Inl (Revert ''invalid saltHash'')
      else Inr ((), st\<lparr>games := (games st)(gameId :=
                      \<lparr>saltHash = sHash, pythSeed = 0, revealedSalt = 0, host = sender,
                       sequenceNumber = 0, vrfFulfilled = False, gameEnded = False,
                       verified = False\<rparr>),
                    events := events st @ [SaltCommitted gameId sHash sender]\<rparr>))"

definition entropyCallback :: "uint64 \<Rightarrow> bytes32 \<Rightarrow> DealerV2 \<Rightarrow> revert + (unit \<times> DealerV2)" where
  "entropyCallback seqNo randomNumber st =
     (let gameId = seqToGameId st seqNo in
      if gameId = 0 then Inl (Revert ''unknown sequence'')
      else Inr ((), st\<lparr>games := (games st)(gameId :=
                      (games st gameId)\<lparr>pythSeed := randomNumber, vrfFulfilled := True\<rparr>),
                    events := events st @ [VRFFulfilled gameId randomNumber]\<rparr>))"

text \<open>
  The verification loop of \<^verbatim>\<open>revealAndVerify\<close>, from index \<open>i\<close>: \<open>Inl\<close> when a
  \<^verbatim>\<open>require(pos < 52)\<close> fails, \<open>Inr False\<close> at the first card that differs from the deck
  (the \<^verbatim>\<open>break\<close>), \<open>Inr True\<close> when the loop runs to its end.
\<close>

function verify_from :: "bytes \<Rightarrow> uint8 list \<Rightarrow> uint8 list \<Rightarrow> nat \<Rightarrow> revert + bool" where
  "verify_from shuffled dealtCards cardPositions i =
     (if i < length dealtCards then
        (let pos = cardPositions ! i in
         if \<not> pos < 52 then Inl (Revert ''invalid position'')
         else if shuffled ! unat pos \<noteq> dealtCards ! i then Inr False
         else verify_from shuffled dealtCards cardPositions (i + 1))
      else Inr True)"
  by pat_completeness auto
termination
  by (relation "measure (\<lambda>(shuffled, dealtCards, cardPositions, i). length dealtCards - i)") auto

declare verify_from.simps [simp del]

definition revealAndVerify ::
  "(bytes \<Rightarrow> bytes32) \<Rightarrow> bytes32 \<Rightarrow> bytes32 \<Rightarrow> uint8 list \<Rightarrow> uint8 list \<Rightarrow> DealerV2
     \<Rightarrow> revert + (bool \<times> DealerV2)" where
  "revealAndVerify keccak256 gameId salt dealtCards cardPositions st =
     (let game = games st gameId in
      if \<not> vrfFulfilled game then Inl (Revert ''VRF not fulfilled'')
      else if gameEnded game then Inl (Revert ''already ended'')
      else if length dealtCards \<noteq> length cardPositions then Inl (Revert ''length mismatch'')
      else if keccak256 (encodePacked_bytes32 salt) \<noteq> saltHash game then Inl (Revert ''salt mismatch'')
      else
        (let game1 = game\<lparr>revealedSalt := salt, gameEnded := True\<rparr>;
             finalSeed = keccak256 (encodePacked_bytes32_bytes32 (pythSeed game1) salt);
             shuffled = shuffle keccak256 finalSeed
         in case verify_from shuffled dealtCards cardPositions 0 of
              Inl e \<Rightarrow> Inl e
            | Inr valid \<Rightarrow>
                Inr (valid, st\<lparr>games := (games st)(gameId := game1\<lparr>verified := valid\<rparr>),
                              events := events st @ [GameVerified gameId salt finalSeed valid]\<rparr>)))"

text \<open>
  A call is a transaction: when it reverts, the EVM discards every write it made, so the
  storage after the call is the storage before it.
\<close>

definition transact :: "('s \<Rightarrow> revert + ('a \<times> 's)) \<Rightarrow> 's \<Rightarrow> (revert + 'a) \<times> 's" where
  "transact tx st = (case tx st of Inl e \<Rightarrow> (Inl e, st) | Inr (r, st') \<Rightarrow> (Inr r, st'))"

text \<open>A call aborts when it reverts and the storage is what it was.\<close>

definition aborts :: "('s \<Rightarrow> revert + ('a \<times> 's)) \<Rightarrow> 's \<Rightarrow> bool" where
  "aborts tx st = (isl (fst (transact tx st)) \<and> snd (transact tx st) = st)"

subsection \<open>Example ledger\<close>

text \<open>
  A stand-in for \<^verbatim>\<open>keccak256\<close> and a ledger with three sessions, for the concrete instances
  below: game 1 is committed to the hash of every salt under the stand-in and fulfilled,
  game 2 is fulfilled with a commitment no salt opens, game 3 is committed and not fulfilled.
\<close>

definition example_keccak :: "bytes \<Rightarrow> bytes32" where
  "example_keccak bs = 1"

definition example_ledger :: DealerV2 where
  "example_ledger =
     \<lparr>games = (\<lambda>g. \<lparr>saltHash = (if g = 1 then 1 else if g = 2 \<or> g = 3 then 2 else 0),
                     pythSeed = (if g = 1 \<or> g = 2 then 9 else 0),
                     revealedSalt = 0, host = 0,
                     sequenceNumber = (if g = 1 then 4 else if g = 2 then 5 else 0),
                     vrfFulfilled = (g = 1 \<or> g = 2), gameEnded = False, verified = False\<rparr>),
      seqToGameId = (\<lambda>q. if q = 4 then 1 else if q = 5 then 2 else 0), events = []\<rparr>"

section \<open>The game engine (PokerEngine)\<close>

subsection \<open>JavaScript values and array helpers\<close>

text \<open>
  The engine's numbers are integers. Ranks, counts and hand values stay far below \<open>2^53\<close>,
  where a JavaScript \<^verbatim>\<open>number\<close> holds every integer exactly; \<^verbatim>\<open>NaN\<close> arises where
  \<^verbatim>\<open>undefined\<close> enters arithmetic and \<^verbatim>\<open>-Infinity\<close> is \<^verbatim>\<open>Math.max()\<close> of no arguments.
\<close>

datatype number = Num int | NaN | NegInfinity

text \<open>
  Stacks, bets and the pot have no such bound. A \<^verbatim>\<open>number\<close> is an IEEE 754 double: it holds
  every integer of magnitude up to \<open>2^53\<close> and, above that, only the multiples of the
  spacing of its binade, \<open>2\<close> from \<open>2^53\<close>, \<open>4\<close> from \<open>2^54\<close> and so on. \<open>ulp m\<close> is that
  spacing at the magnitude \<open>m\<close>.
\<close>

function ulp :: "int \<Rightarrow> int" where
  "ulp m = (if m < 2 ^ 53 then 1 else 2 * ulp (m div 2))"
  by pat_completeness auto
termination
  by (relation "measure nat") auto

declare ulp.simps [simp del]

text \<open>The multiple of \<open>u\<close> nearest to \<open>m\<close>; of two equally near, the even multiple.\<close>

definition round_even :: "int \<Rightarrow> int \<Rightarrow> int" where
  "round_even u m =
     (let q = m div u; r = m mod u in
      if 2 * r < u then q * u
      else if u < 2 * r then (q + 1) * u
      else if even q then q * u else (q + 1) * u)"

text \<open>
  The double nearest to the integer \<open>x\<close>, ties to the even significand: what an addition or
  a subtraction with the exact result \<open>x\<close> returns. (The overflow to \<^verbatim>\<open>Infinity\<close>, at
  \<open>2^1024\<close>, is not modelled.)
\<close>

definition fl :: "int \<Rightarrow> int" where
  "fl x = (if \<bar>x\<bar> \<le> 2 ^ 53 then x else sgn x * round_even (ulp \<bar>x\<bar>) \<bar>x\<bar>)"

text \<open>\<^verbatim>\<open>a + b\<close> and \<^verbatim>\<open>a - b\<close> on two such numbers.\<close>

definition js_add :: "int \<Rightarrow> int \<Rightarrow> int" where
  "js_add a b = fl (a + b)"

definition js_sub :: "int \<Rightarrow> int \<Rightarrow> int" where
  "js_sub a b = fl (a - b)"

datatype js_error = TypeError | Error string

text \<open>Reading an array at an index: \<^verbatim>\<open>undefined\<close> (here \<open>None\<close>) out of range.\<close>

definition nth_opt :: "'a list \<Rightarrow> nat \<Rightarrow> 'a option" where
  "nth_opt xs i = (if i < length xs then Some (xs ! i) else None)"

text \<open>\<open>acc + x * k\<close>, where \<open>x\<close> may be \<^verbatim>\<open>undefined\<close>.\<close>

fun plus_times :: "number \<Rightarrow> int option \<Rightarrow> int \<Rightarrow> number" where
  "plus_times (Num a) (Some x) k = Num (a + x * k)"
| "plus_times NegInfinity (Some x) k = NegInfinity"
| "plus_times acc x k = NaN"

fun max_number :: "number \<Rightarrow> number \<Rightarrow> number" where
  "max_number NaN y = NaN"
| "max_number x NaN = NaN"
| "max_number NegInfinity y = y"
| "max_number x NegInfinity = x"
| "max_number (Num a) (Num b) = Num (max a b)"

definition Math_max :: "number list \<Rightarrow> number" where
  "Math_max xs = foldl max_number NegInfinity xs"

text \<open>\<^verbatim>\<open>===\<close> on numbers: \<^verbatim>\<open>NaN\<close> equals nothing.\<close>

definition strict_eq :: "number \<Rightarrow> number \<Rightarrow> bool" where
  "strict_eq a b = (a \<noteq> NaN \<and> a = b)"

text \<open>
  \<^verbatim>\<open>Array.prototype.sort(cmp)\<close> is stable: insertion from the right, each element put before
  the first one it does not compare greater than.
\<close>

fun insert_by :: "('a \<Rightarrow> 'a \<Rightarrow> int) \<Rightarrow> 'a \<Rightarrow> 'a list \<Rightarrow> 'a list" where
  "insert_by cmp x [] = [x]"
| "insert_by cmp x (y # ys) = (if cmp x y \<le> 0 then x # y # ys else y # insert_by cmp x ys)"

definition sort_by :: "('a \<Rightarrow> 'a \<Rightarrow> int) \<Rightarrow> 'a list \<Rightarrow> 'a list" where
  "sort_by cmp xs = foldr (insert_by cmp) xs []"

text \<open>The elements of \<^verbatim>\<open>new Set(xs)\<close>, in the order of their first occurrence.\<close>

definition set_elements :: "'a list \<Rightarrow> 'a list" where
  "set_elements xs = rev (remdups (rev xs))"

text \<open>Decimal digits of a number inside a template string.\<close>

fun show_nat :: "nat \<Rightarrow> string" where
  "show_nat n = (if n < 10 then [char_of (48 + n)] else show_nat (n div 10) @ [char_of (48 + n mod 10)])"

declare show_nat.simps [simp del]

definition show_int :: "int \<Rightarrow> string" where
  "show_int i = (if i < 0 then ''-'' @ show_nat (nat (- i)) else show_nat (nat i))"

subsection \<open>Cards and hand evaluations\<close>

datatype Suit = Hearts | Diamonds | Clubs | Spades

text \<open>The enum \<^verbatim>\<open>Rank\<close> is numeric, \<^verbatim>\<open>Two = 2\<close> up to \<^verbatim>\<open>Ace = 14\<close>: a card's rank is its number.\<close>

type_synonym Rank = int

record Card =
  rank :: Rank
  suit :: Suit

datatype HandRank =
  HighCard | OnePair | TwoPair | ThreeOfAKind | Straight | Flush | FullHouse | FourOfAKind
  | StraightFlush | RoyalFlush

fun HandRank_number :: "HandRank \<Rightarrow> int" where
  "HandRank_number HighCard = 1"
| "HandRank_number OnePair = 2"
| "HandRank_number TwoPair = 3"
| "HandRank_number ThreeOfAKind = 4"
| "HandRank_number Straight = 5"
| "HandRank_number Flush = 6"
| "HandRank_number FullHouse = 7"
| "HandRank_number FourOfAKind = 8"
| "HandRank_number StraightFlush = 9"
| "HandRank_number RoyalFlush = 10"

text \<open>The fields \<^verbatim>\<open>rank\<close>, \<^verbatim>\<open>value\<close> and \<^verbatim>\<open>cards\<close> of a \<^verbatim>\<open>HandEvaluation\<close>.\<close>

record HandEvaluation =
  handRank :: HandRank
  handValue :: number
  description :: string
  handCards :: "Card list"

subsection \<open>The hand evaluator\<close>

definition checkStraight :: "Card list \<Rightarrow> bool \<times> Card list" where
  "checkStraight sortedCards =
     (let ranks = map rank sortedCards;
          uniqueRanks = sort_by (\<lambda>a b. b - a) (set_elements ranks)
      in case find (\<lambda>i. list_all (\<lambda>j. uniqueRanks ! (i + j) - uniqueRanks ! (i + j + 1) = 1) [0..<4])
                [0..<length uniqueRanks - 4] of
           Some i \<Rightarrow>
             (True, List.map_filter (\<lambda>j. find (\<lambda>c. rank c = uniqueRanks ! (i + j)) sortedCards) [0..<5])
         | None \<Rightarrow>
             (let wheel = [14, 5, 4, 3, 2] in
              if list_all (\<lambda>r. r \<in> set ranks) wheel
              then (True, List.map_filter (\<lambda>r. find (\<lambda>c. rank c = r) sortedCards) wheel)
              else (False, [])))"

text \<open>\<open>sum + card.rank * Math.pow(100, 4 - idx)\<close> over the cards with their indices.\<close>

definition weighted_ranks :: "Card list \<Rightarrow> int" where
  "weighted_ranks cs =
     foldl (\<lambda>sum (idx, card). sum + rank card * 100 ^ (4 - idx)) 0 (zip [0..<length cs] cs)"

definition evaluateHand :: "Card list \<Rightarrow> js_error + HandEvaluation" where
  "evaluateHand cards =
     (if length cards < 5 then Inl (Error ''Need at least 5 cards to evaluate hand'')
      else
       (let sortedCards = sort_by (\<lambda>a b. rank b - rank a) cards;
            ranks = map rank sortedCards;
            rankCounts = fold (\<lambda>r m. AList.update r (case map_of m r of None \<Rightarrow> 1 | Some c \<Rightarrow> c + 1) m)
                           ranks ([] :: (Rank \<times> int) list);
            counts = sort_by (\<lambda>a b. b - a) (map snd rankCounts);
            countRanks = map fst (sort_by (\<lambda>a b. if snd b - snd a \<noteq> 0 then snd b - snd a
                                                   else fst b - fst a) rankCounts);
            suitCounts = fold (\<lambda>card m. AList.update (suit card)
                                 ((case map_of m (suit card) of None \<Rightarrow> [] | Some cs \<Rightarrow> cs) @ [card]) m)
                           sortedCards [];
            flushSuit = find (\<lambda>e. 5 \<le> length (snd e)) suitCounts;
            isFlush = (flushSuit \<noteq> None);
            flushCards = (case flushSuit of Some e \<Rightarrow> take 5 (snd e) | None \<Rightarrow> []);
            straightResult = checkStraight sortedCards;
            isStraight = fst straightResult;
            straightCards = snd straightResult
        in
          if isFlush \<and> isStraight then
            (case straightCards of
               [] \<Rightarrow> Inl TypeError
             | c # cs \<Rightarrow>
                 if rank c = 14 then
                   Inr \<lparr>handRank = RoyalFlush, handValue = Num 10000000,
                        description = ''Royal Flush'', handCards = straightCards\<rparr>
                 else
                   Inr \<lparr>handRank = StraightFlush, handValue = Num (9000000 + rank c),
                        description = ''Straight Flush'', handCards = straightCards\<rparr>)
          else if nth_opt counts 0 = Some 4 then
            (let fourKind = nth_opt countRanks 0; kicker = nth_opt countRanks 1 in
             Inr \<lparr>handRank = FourOfAKind,
                  handValue = plus_times (plus_times (Num 8000000) fourKind 100) kicker 1,
                  description = ''Four of a Kind'',
                  handCards = take 5 (filter (\<lambda>c. Some (rank c) = fourKind \<or> Some (rank c) = kicker)
                                       sortedCards)\<rparr>)
          else if nth_opt counts 0 = Some 3 \<and> nth_opt counts 1 = Some 2 then
            (let threeKind = nth_opt countRanks 0; pair = nth_opt countRanks 1 in
             Inr \<lparr>handRank = FullHouse,
                  handValue = plus_times (plus_times (Num 7000000) threeKind 100) pair 1,
                  description = ''Full House'',
                  handCards = filter (\<lambda>c. Some (rank c) = threeKind \<or> Some (rank c) = pair) sortedCards\<rparr>)
          else if isFlush then
            Inr \<lparr>handRank = Flush, handValue = Num (6000000 + weighted_ranks flushCards),
                 description = ''Flush'', handCards = flushCards\<rparr>
          else if isStraight then
            (case straightCards of
               [] \<Rightarrow> Inl TypeError
             | c # cs \<Rightarrow>
                 Inr \<lparr>handRank = Straight, handValue = Num (5000000 + rank c),
                      description = ''Straight'', handCards = straightCards\<rparr>)
          else if nth_opt counts 0 = Some 3 then
            (let threeKind = nth_opt countRanks 0; kickers = take 2 (drop 1 countRanks) in
             Inr \<lparr>handRank = ThreeOfAKind,
                  handValue = plus_times (plus_times (plus_times (Num 4000000) threeKind 10000)
                                (nth_opt kickers 0) 100) (nth_opt kickers 1) 1,
                  description = ''Three of a Kind'',
                  handCards = take 5 (filter (\<lambda>c. Some (rank c) = threeKind \<or> rank c \<in> set kickers)
                                       sortedCards)\<rparr>)
          else if nth_opt counts 0 = Some 2 \<and> nth_opt counts 1 = Some 2 then
            (let highPair = nth_opt countRanks 0; lowPair = nth_opt countRanks 1;
                 kicker = nth_opt countRanks 2 in
             Inr \<lparr>handRank = TwoPair,
                  handValue = plus_times (plus_times (plus_times (Num 3000000) highPair 10000)
                                lowPair 100) kicker 1,
                  description = ''Two Pair'',
                  handCards = take 5 (filter (\<lambda>c. Some (rank c) = highPair \<or> Some (rank c) = lowPair
                                                   \<or> Some (rank c) = kicker) sortedCards)\<rparr>)
          else if nth_opt counts 0 = Some 2 then
            (let pairRank = nth_opt countRanks 0; kickers = take 3 (drop 1 countRanks) in
             Inr \<lparr>handRank = OnePair,
                  handValue = plus_times (plus_times (plus_times (plus_times (Num 2000000) pairRank 10000)
                                (nth_opt kickers 0) 100) (nth_opt kickers 1) 10) (nth_opt kickers 2) 1,
                  description = ''One Pair'',
                  handCards = take 5 (filter (\<lambda>c. Some (rank c) = pairRank \<or> rank c \<in> set kickers)
                                       sortedCards)\<rparr>)
          else
            (let highCards = take 5 sortedCards in
             Inr \<lparr>handRank = HighCard, handValue = Num (1000000 + weighted_ranks highCards),
                  description = ''High Card'', handCards = highCards\<rparr>)))"

text \<open>
  How \<^verbatim>\<open>evaluateWinners\<close> and \<^verbatim>\<open>settlePot\<close> pick the winners among the entries
  \<open>(player id, evaluation)\<close> of the evaluations map: the highest rank first, then the best value
  among the evaluations of that rank. The result is the winners' ids.
\<close>

definition selectWinners :: "(nat \<times> HandEvaluation) list \<Rightarrow> nat list" where
  "selectWinners entries =
     (let maxRank = Math_max (map (\<lambda>e. Num (HandRank_number (handRank (snd e)))) entries);
          topRankEvals = filter (\<lambda>e. strict_eq (Num (HandRank_number (handRank (snd e)))) maxRank) entries;
          bestValue = Math_max (map (\<lambda>e. handValue (snd e)) topRankEvals)
      in map fst (filter (\<lambda>e. strict_eq (handValue (snd e)) bestValue) topRankEvals))"

subsection \<open>Players and the game state\<close>

text \<open>
  The records \<^verbatim>\<open>Player\<close> and \<^verbatim>\<open>GameState\<close> of the shared types. A player's \<^verbatim>\<open>id\<close> is the
  field \<open>player_id\<close>; the state's own \<^verbatim>\<open>currentBet\<close> (the highest wager of the street) is the
  field \<open>tableCurrentBet\<close>, the players' field keeping the name \<open>currentBet\<close>. Seat indices
  and counters are natural numbers.
\<close>

record Player =
  player_id :: nat
  name :: string
  chips :: int
  holeCards :: "Card list"
  isActive :: bool
  isFolded :: bool
  isAllIn :: bool
  currentBet :: int
  totalBetInRound :: int
  isAI :: bool

datatype GameStage = PreFlop | Flop | Turn | River | Showdown

record SidePot =
  amount :: int
  eligiblePlayers :: "nat list"

record GameState =
  players :: "Player list"
  deck :: "Card list"
  communityCards :: "Card list"
  pot :: int
  tableCurrentBet :: int
  stage :: GameStage
  dealerPosition :: nat
  smallBlindPosition :: nat
  bigBlindPosition :: nat
  currentPlayerIndex :: nat
  lastToActIndex :: nat
  lastRaiseAmount :: int
  smallBlind :: int
  bigBlind :: int
  sidePots :: "SidePot list"
  bettingActions :: nat
  logs :: "string list"

definition addLog :: "string \<Rightarrow> GameState \<Rightarrow> GameState" where
  "addLog entry st = st\<lparr>logs := logs st @ [entry]\<rparr>"

subsection \<open>Showdown\<close>

text \<open>
  \<^verbatim>\<open>evaluateWinners\<close>: the winners (an entry is \<open>None\<close> where \<^verbatim>\<open>players[id]\<close> is
  \<^verbatim>\<open>undefined\<close>) and the evaluations map, in insertion order.
\<close>

definition evaluateWinners :: "GameState \<Rightarrow> Player option list \<times> (nat \<times> HandEvaluation) list" where
  "evaluateWinners st =
     (let active = filter (\<lambda>p. \<not> isFolded p \<and> isActive p) (players st) in
      if length active = 1 then ([nth_opt active 0], [])
      else
       (let evaluations =
              fold (\<lambda>p m. (let hand = holeCards p @ communityCards st in
                            if 5 \<le> length hand then
                              (case evaluateHand hand of
                                 Inr ev \<Rightarrow> AList.update (player_id p) ev m
                               | Inl e \<Rightarrow> m)
                            else m)) active []
        in if length evaluations = 0 then (map Some active, evaluations)
           else (map (\<lambda>i. nth_opt (players st) i) (selectWinners evaluations), evaluations)))"

subsection \<open>Side pots\<close>

text \<open>The loop of \<^verbatim>\<open>calculateSidePots\<close> over the sorted all-in amounts.\<close>

fun sidePotLoop :: "Player list \<Rightarrow> int list \<Rightarrow> int \<Rightarrow> SidePot list \<Rightarrow> int \<times> SidePot list" where
  "sidePotLoop activePlayers [] previous pots = (previous, pots)"
| "sidePotLoop activePlayers (amt # rest) previous pots =
     (let potAmount = foldl (\<lambda>sum player. sum + max 0 (min (totalBetInRound player) amt - previous))
                        0 activePlayers;
          pots1 = (if 0 < potAmount
                   then pots @ [\<lparr>amount = potAmount,
                                 eligiblePlayers = map player_id
                                   (filter (\<lambda>p. amt \<le> totalBetInRound p) activePlayers)\<rparr>]
                   else pots)
      in sidePotLoop activePlayers rest amt pots1)"

definition calculateSidePots :: "GameState \<Rightarrow> GameState" where
  "calculateSidePots st =
     (let activePlayers = filter (\<lambda>p. \<not> isFolded p \<and> 0 < totalBetInRound p) (players st);
          allInAmounts = sort_by (\<lambda>a b. a - b) (map totalBetInRound (filter isAllIn activePlayers));
          looped = sidePotLoop activePlayers allInAmounts 0 [];
          previous = fst looped;
          pots = snd looped;
          mainAmount = foldl (\<lambda>sum player. sum + max 0 (totalBetInRound player - previous))
                         0 activePlayers
      in st\<lparr>sidePots := (if 0 < mainAmount
                          then pots @ [\<lparr>amount = mainAmount,
                                        eligiblePlayers = map player_id activePlayers\<rparr>]
                          else pots)\<rparr>)"

subsection \<open>Turn order and streets\<close>

definition advanceFrom :: "nat \<Rightarrow> GameState \<Rightarrow> GameState" where
  "advanceFrom startIdx st =
     (let n = length (players st) in
      case find (\<lambda>idx. \<not> isFolded (players st ! idx) \<and> 0 < chips (players st ! idx))
             (map (\<lambda>offset. (startIdx + offset) mod n) [1..<n + 1]) of
        Some idx \<Rightarrow> st\<lparr>currentPlayerIndex := idx\<rparr>
      | None \<Rightarrow> st)"

definition isBettingRoundComplete :: "nat option \<Rightarrow> GameState \<Rightarrow> bool" where
  "isBettingRoundComplete originIdx st =
     (let contenders = filter (\<lambda>p. \<not> isFolded p \<and> \<not> isAllIn p \<and> 0 < chips p) (players st) in
      if length contenders = 0 then True
      else if \<not> list_all (\<lambda>p. currentBet p = tableCurrentBet st) contenders then False
      else if stage st = PreFlop then originIdx = Some (lastToActIndex st)
      else if tableCurrentBet st = 0 then originIdx = Some (lastToActIndex st)
      else originIdx = Some (lastToActIndex st))"

definition drawMany :: "nat \<Rightarrow> GameState \<Rightarrow> Card list \<times> GameState" where
  "drawMany n st = (take n (deck st), st\<lparr>deck := drop n (deck st)\<rparr>)"

definition burn :: "GameState \<Rightarrow> GameState" where
  "burn st = st\<lparr>deck := tl (deck st)\<rparr>"

definition resetRoundBets :: "GameState \<Rightarrow> GameState" where
  "resetRoundBets st =
     (let st1 = st\<lparr>players := map (\<lambda>p. p\<lparr>currentBet := 0\<rparr>) (players st), tableCurrentBet := 0\<rparr>;
          n = length (players st1);
          st2 = (case find (\<lambda>idx. \<not> isFolded (players st1 ! idx))
                        (map (\<lambda>offset. (dealerPosition st1 + n - offset) mod n) [0..<n]) of
                   Some idx \<Rightarrow> st1\<lparr>lastToActIndex := idx\<rparr>
                 | None \<Rightarrow> st1)
      in st2\<lparr>lastRaiseAmount := bigBlind st2\<rparr>)"

text \<open>Burn one card, deal \<open>n\<close> community cards, reset the street's bets.\<close>

definition dealStreet :: "nat \<Rightarrow> GameState \<Rightarrow> GameState" where
  "dealStreet n st =
     (let st1 = burn st;
          drawn = drawMany n st1;
          st2 = (snd drawn)\<lparr>communityCards := communityCards (snd drawn) @ fst drawn\<rparr>
      in resetRoundBets st2)"

definition nextStage :: "GameState \<Rightarrow> GameState" where
  "nextStage st =
     (case stage st of
        PreFlop \<Rightarrow> dealStreet 3 (addLog ''--- Flop ---'' (st\<lparr>stage := Flop\<rparr>))
      | Flop \<Rightarrow> dealStreet 1 (addLog ''--- Turn ---'' (st\<lparr>stage := Turn\<rparr>))
      | Turn \<Rightarrow> dealStreet 1 (addLog ''--- River ---'' (st\<lparr>stage := River\<rparr>))
      | River \<Rightarrow> st\<lparr>stage := Showdown\<rparr>
      | Showdown \<Rightarrow> st)"

text \<open>The number of streets left before the showdown.\<close>

fun streetsLeft :: "GameStage \<Rightarrow> nat" where
  "streetsLeft PreFlop = 4"
| "streetsLeft Flop = 3"
| "streetsLeft Turn = 2"
| "streetsLeft River = 1"
| "streetsLeft Showdown = 0"

lemma stage_resetRoundBets: "stage (resetRoundBets st) = stage st"
  by (simp add: resetRoundBets_def Let_def split: option.splits)

lemma stage_dealStreet: "stage (dealStreet n st) = stage st"
  by (simp add: dealStreet_def Let_def stage_resetRoundBets drawMany_def burn_def)

lemma streetsLeft_nextStage:
  "stage st \<noteq> Showdown \<Longrightarrow> streetsLeft (stage (nextStage st)) < streetsLeft (stage st)"
  by (cases "stage st") (simp_all add: nextStage_def stage_dealStreet addLog_def)

text \<open>\<^verbatim>\<open>while (stage !== Showdown) nextStage()\<close>, the automatic run-out of the board.\<close>

function runToShowdown :: "GameState \<Rightarrow> GameState" where
  "runToShowdown st = (if stage st \<noteq> Showdown then runToShowdown (nextStage st) else st)"
  by pat_completeness auto
termination
  by (relation "measure (\<lambda>st. streetsLeft (stage st))") (auto simp: streetsLeft_nextStage)

declare runToShowdown.simps [simp del]

definition postActionHandler :: "nat \<Rightarrow> GameState \<Rightarrow> GameState" where
  "postActionHandler originIdx st =
     (let st1 = st\<lparr>bettingActions := bettingActions st + 1\<rparr>;
          remaining = filter (\<lambda>p. \<not> isFolded p) (players st1)
      in if length remaining = 1 then st1\<lparr>stage := Showdown\<rparr>
         else
          (let st2 = advanceFrom originIdx st1 in
           if isBettingRoundComplete (Some originIdx) st2 then
             (let st3 = nextStage st2 in
              if stage st3 \<noteq> Showdown then
                (let canAct = list_ex (\<lambda>p. \<not> isFolded p \<and> \<not> isAllIn p \<and> 0 < chips p) (players st3) in
                 if \<not> canAct then runToShowdown st3
                 else advanceFrom (dealerPosition st3) st3)
              else st3)
           else st2))"

subsection \<open>The player actions\<close>

text \<open>
  Each action reads \<^verbatim>\<open>players[playerId]\<close> first; out of range that is \<^verbatim>\<open>undefined\<close> and the
  first property read throws a \<^verbatim>\<open>TypeError\<close>. An action that returns early leaves the state
  as it is.
\<close>

definition check :: "nat \<Rightarrow> GameState \<Rightarrow> js_error + GameState" where
  "check playerId st =
     (case nth_opt (players st) playerId of
        None \<Rightarrow> Inl TypeError
      | Some player \<Rightarrow>
          if isFolded player \<or> isAllIn player \<or> stage st = Showdown \<or> chips player \<le> 0 then Inr st
          else if currentBet player \<noteq> tableCurrentBet st then Inr st
          else Inr (postActionHandler playerId (addLog (name player @ '' checks'') st)))"

definition call :: "nat \<Rightarrow> GameState \<Rightarrow> js_error + GameState" where
  "call playerId st =
     (case nth_opt (players st) playerId of
        None \<Rightarrow> Inl TypeError
      | Some player \<Rightarrow>
          if isFolded player \<or> isAllIn player \<or> stage st = Showdown \<or> chips player \<le> 0 then Inr st
          else
           (let toCall = js_sub (tableCurrentBet st) (currentBet player) in
            if toCall \<le> 0 then check playerId st
            else
             (let wager = min toCall (chips player);
                  player1 = player\<lparr>chips := js_sub (chips player) wager,
                                   currentBet := js_add (currentBet player) wager,
                                   totalBetInRound := js_add (totalBetInRound player) wager\<rparr>;
                  player2 = (if chips player1 = 0 then player1\<lparr>isAllIn := True\<rparr> else player1);
                  st1 = st\<lparr>players := (players st)[playerId := player2],
                           pot := js_add (pot st) wager\<rparr>
              in Inr (postActionHandler playerId
                        (addLog (name player2 @ '' calls '' @ show_int wager) st1)))))"

definition bet :: "nat \<Rightarrow> int \<Rightarrow> bool \<Rightarrow> GameState \<Rightarrow> js_error + GameState" where
  "bet playerId amt skipPost st =
     (case nth_opt (players st) playerId of
        None \<Rightarrow> Inl TypeError
      | Some player \<Rightarrow>
          if isFolded player \<or> isAllIn player \<or> stage st = Showdown \<or> chips player \<le> 0 \<or> amt \<le> 0
          then Inr st
          else
           (let prevBet = tableCurrentBet st;
                minRaise = (if prevBet = 0 then bigBlind st else lastRaiseAmount st)
            in if amt < minRaise \<and> amt < chips player then call playerId st
               else
                (let wager = min amt (chips player);
                     player1 = player\<lparr>chips := js_sub (chips player) wager,
                                      currentBet := js_add (currentBet player) wager,
                                      totalBetInRound := js_add (totalBetInRound player) wager\<rparr>;
                     player2 = (if chips player1 = 0 then player1\<lparr>isAllIn := True\<rparr> else player1);
                     st1 = st\<lparr>players := (players st)[playerId := player2],
                              pot := js_add (pot st) wager\<rparr>;
                     st2 = (if prevBet < currentBet player2
                            then st1\<lparr>lastRaiseAmount := js_sub (currentBet player2) prevBet,
                                     tableCurrentBet := currentBet player2,
                                     lastToActIndex := playerId\<rparr>
                            else st1)
                 in if \<not> skipPost then
                      (let actionMsg =
                             (if prevBet < currentBet player2
                              then (if prevBet = 0 then ''bets '' @ show_int (currentBet player2)
                                    else ''raises to '' @ show_int (currentBet player2))
                              else ''calls '' @ show_int wager)
                       in Inr (postActionHandler playerId
                                 (addLog (name player2 @ '' '' @ actionMsg) st2)))
                    else Inr st2)))"

definition fold_hand :: "nat \<Rightarrow> GameState \<Rightarrow> js_error + GameState" where
  "fold_hand playerId st =
     (case nth_opt (players st) playerId of
        None \<Rightarrow> Inl TypeError
      | Some player \<Rightarrow>
          if isFolded player \<or> isAllIn player \<or> stage st = Showdown then Inr st
          else
           (let st1 = st\<lparr>players := (players st)[playerId := player\<lparr>isFolded := True\<rparr>]\<rparr>
            in Inr (postActionHandler playerId (addLog (name player @ '' folds'') st1))))"

definition allIn :: "nat \<Rightarrow> GameState \<Rightarrow> js_error + GameState" where
  "allIn playerId st =
     (case nth_opt (players st) playerId of
        None \<Rightarrow> Inl TypeError
      | Some player \<Rightarrow>
          if isFolded player \<or> isAllIn player \<or> stage st = Showdown \<or> chips player \<le> 0 then Inr st
          else
           (let st1 = addLog (name player @ '' goes all-in ('' @ show_int (chips player) @ '')'') st in
            case bet playerId (chips player) False st1 of
              Inl e \<Rightarrow> Inl e
            | Inr st2 \<Rightarrow>
                Inr (st2\<lparr>players := (players st2)[playerId :=
                                       (players st2 ! playerId)\<lparr>isAllIn := True\<rparr>]\<rparr>)))"

text \<open>
  What an action returns for a seat of the table: the state as it is when the condition
  \<open>c\<close> holds, and otherwise a state with a longer log.
\<close>

definition absorbedWhen :: "bool \<Rightarrow> GameState \<Rightarrow> js_error + GameState \<Rightarrow> bool" where
  "absorbedWhen c st r =
     (case r of Inl e \<Rightarrow> False
      | Inr s' \<Rightarrow> if c then s' = st else length (logs st) < length (logs s'))"

subsection \<open>Starting a hand\<close>

text \<open>
  The helper \<^verbatim>\<open>nextIdx\<close> of \<^verbatim>\<open>startNewHandInternal\<close> reads the players as they are when it is
  called. \<^verbatim>\<open>dealerPosition\<close> is a number in every state the engine builds, so the branch for
  \<^verbatim>\<open>undefined\<close> is not taken.
\<close>

abbreviation seated :: "Player \<Rightarrow> bool" where
  "seated p \<equiv> 0 < chips p \<and> isActive p"

definition nextIdx :: "Player list \<Rightarrow> nat \<Rightarrow> nat" where
  "nextIdx ps start =
     (let n = length ps in
      case find (\<lambda>idx. 0 < chips (ps ! idx) \<and> isActive (ps ! idx))
             (map (\<lambda>off. (start + off) mod n) [1..<n + 1]) of
        Some idx \<Rightarrow> idx
      | None \<Rightarrow> start)"

text \<open>One card from the top of the deck to the player at seat \<open>k\<close>.\<close>

definition dealOne :: "nat \<Rightarrow> GameState \<Rightarrow> GameState" where
  "dealOne k st =
     (let drawn = drawMany 1 st; st1 = snd drawn in
      st1\<lparr>players := (players st1)[k := (players st1 ! k)\<lparr>holeCards := holeCards (players st1 ! k) @ fst drawn\<rparr>]\<rparr>)"

definition dealRound :: "GameState \<Rightarrow> GameState" where
  "dealRound st = fold dealOne [0..<length (players st)] st"

definition dealHoleCards :: "GameState \<Rightarrow> GameState" where
  "dealHoleCards st = dealRound (dealRound st)"

text \<open>
  The state after the first \<open>m\<close> seats have each drawn one card: the closed form of the
  dealing loop, used to read the hole cards off the deck.
\<close>

definition dealtTo :: "nat \<Rightarrow> GameState \<Rightarrow> GameState" where
  "dealtTo m st =
     st\<lparr>deck := drop m (deck st),
        players := map (\<lambda>k. if k < m
                             then (players st ! k)\<lparr>holeCards := holeCards (players st ! k)
                                                      @ take 1 (drop k (deck st))\<rparr>
                             else players st ! k) [0..<length (players st)]\<rparr>"

definition postBlind :: "nat \<Rightarrow> int \<Rightarrow> GameState \<Rightarrow> js_error + GameState" where
  "postBlind idx amt st =
     (case nth_opt (players st) idx of
        None \<Rightarrow> Inl TypeError
      | Some p \<Rightarrow>
         (let stake = min amt (chips p);
              p1 = p\<lparr>chips := js_sub (chips p) stake, currentBet := js_add (currentBet p) stake,
                     totalBetInRound := js_add (totalBetInRound p) stake\<rparr>;
              p2 = (if chips p1 = 0 then p1\<lparr>isAllIn := True\<rparr> else p1)
          in Inr (st\<lparr>players := (players st)[idx := p2], pot := js_add (pot st) stake\<rparr>)))"

text \<open>The blocks of \<^verbatim>\<open>startNewHandInternal\<close>: the dealer rotation with the blind seats,\<close>

definition assignPositions :: "nat \<Rightarrow> GameState \<Rightarrow> GameState" where
  "assignPositions activeCount st =
     (let dealer = nextIdx (players st) (dealerPosition st);
          st1 = st\<lparr>dealerPosition := dealer\<rparr>
      in if activeCount = 2
         then st1\<lparr>smallBlindPosition := dealer, bigBlindPosition := nextIdx (players st1) dealer\<rparr>
         else (let sb = nextIdx (players st1) dealer in
               st1\<lparr>smallBlindPosition := sb, bigBlindPosition := nextIdx (players st1) sb\<rparr>))"

text \<open>the log line and the reset of the state,\<close>

definition resetForNewHand :: "GameState \<Rightarrow> GameState" where
  "resetForNewHand st =
     (let st1 = addLog ''--- New Hand ---'' st;
          st2 = st1\<lparr>pot := 0, sidePots := [], tableCurrentBet := 0, stage := PreFlop,
                   communityCards := [], bettingActions := 0\<rparr>
      in st2\<lparr>players := map (\<lambda>p. p\<lparr>holeCards := [], isFolded := False, isAllIn := False,
                                       currentBet := 0, totalBetInRound := 0\<rparr>) (players st2)\<rparr>)"

text \<open>and the parameters of the first action, set after the blinds are posted.\<close>

definition firstActionParams :: "GameState \<Rightarrow> js_error + GameState" where
  "firstActionParams st =
     (case nth_opt (players st) (bigBlindPosition st) of
        None \<Rightarrow> Inl TypeError
      | Some bb \<Rightarrow>
          Inr (st\<lparr>tableCurrentBet := currentBet bb,
                  currentPlayerIndex := nextIdx (players st) (bigBlindPosition st),
                  lastToActIndex := bigBlindPosition st,
                  lastRaiseAmount := bigBlind st\<rparr>))"

text \<open>
  \<open>freshDeck\<close> is what \<^verbatim>\<open>createDeck()\<close> returns (a deck shuffled with \<^verbatim>\<open>Math.random\<close>), used when
  no external deck is given.
\<close>

definition startNewHandInternal :: "Card list \<Rightarrow> Card list option \<Rightarrow> GameState \<Rightarrow> js_error + GameState" where
  "startNewHandInternal freshDeck externalDeck st =
     (let activeCount = length (filter (\<lambda>p. 0 < chips p \<and> isActive p) (players st)) in
      if activeCount < 2 then Inr (st\<lparr>stage := Showdown\<rparr>)
      else
       (let st1 = assignPositions activeCount st;
            st2 = resetForNewHand st1;
            st3 = st2\<lparr>deck := (case externalDeck of Some d \<Rightarrow> d | None \<Rightarrow> freshDeck)\<rparr>;
            st4 = dealHoleCards st3
        in case postBlind (smallBlindPosition st4) (smallBlind st4) st4 of
             Inl e \<Rightarrow> Inl e
           | Inr st5 \<Rightarrow>
              (case postBlind (bigBlindPosition st5) (bigBlind st5) st5 of
                 Inl e \<Rightarrow> Inl e
               | Inr st6 \<Rightarrow> firstActionParams st6)))"

subsection \<open>A packed deck from the dealer contract\<close>

text \<open>
  The argument is a \<^verbatim>\<open>Uint8Array\<close>, an array of numbers or a hex string. \<^verbatim>\<open>Uint8Array.from\<close>
  takes each number modulo 256 and \<^verbatim>\<open>NaN\<close> to 0. The builtin \<^verbatim>\<open>parseInt(chunk, 16)\<close> is the
  parameter \<open>parseInt16\<close>, \<open>None\<close> standing for \<^verbatim>\<open>NaN\<close>.
\<close>

datatype PackedDeck = Bytes "uint8 list" | Numbers "int list" | HexString string

fun chunks2 :: "string \<Rightarrow> string list" where
  "chunks2 [] = []"
| "chunks2 [a] = [[a]]"
| "chunks2 (a # b # cs) = [a, b] # chunks2 cs"

definition toUint8 :: "int option \<Rightarrow> uint8" where
  "toUint8 x = (case x of None \<Rightarrow> 0 | Some i \<Rightarrow> word_of_int i)"

definition decodePacked :: "(string \<Rightarrow> int option) \<Rightarrow> PackedDeck \<Rightarrow> uint8 list" where
  "decodePacked parseInt16 packedDeck =
     (case packedDeck of
        HexString s \<Rightarrow>
          (let hex = (if take 2 s = ''0x'' then drop 2 s else s) in
           map (\<lambda>chunk. toUint8 (parseInt16 chunk)) (chunks2 hex))
      | Numbers xs \<Rightarrow> map (\<lambda>x. toUint8 (Some x)) xs
      | Bytes bs \<Rightarrow> bs)"

definition suitValues :: "Suit list" where
  "suitValues = [Hearts, Diamonds, Clubs, Spades]"

definition decodeCard :: "uint8 \<Rightarrow> Card" where
  "decodeCard val =
     (let suitIdx = unat val mod 4;
          rankIdx = unat val div 4;
          rankVal = int rankIdx + 2
      in \<lparr>rank = rankVal, suit = suitValues ! suitIdx\<rparr>)"

definition startNewHandWithPackedDeck ::
  "(string \<Rightarrow> int option) \<Rightarrow> Card list \<Rightarrow> PackedDeck \<Rightarrow> GameState \<Rightarrow> js_error + GameState" where
  "startNewHandWithPackedDeck parseInt16 freshDeck packedDeck st =
     (let decoded = decodePacked parseInt16 packedDeck in
      if length decoded < 52 then Inl (Error ''Packed deck must contain 52 bytes'')
      else startNewHandInternal freshDeck (Some (map decodeCard (take 52 decoded))) st)"

subsection \<open>A new engine\<close>

definition initializeGame :: GameState where
  "initializeGame =
     \<lparr>players = [], deck = [], communityCards = [], pot = 0, tableCurrentBet = 0, stage = PreFlop,
      dealerPosition = 0, smallBlindPosition = 0, bigBlindPosition = 0, currentPlayerIndex = 0,
      lastToActIndex = 0, lastRaiseAmount = 20, smallBlind = 10, bigBlind = 20, sidePots = [],
      bettingActions = 0, logs = []\<rparr>"

text \<open>The constructor with \<^verbatim>\<open>autoStart = false\<close>: the table before its first hand.\<close>

definition newEngine :: "string list \<Rightarrow> int \<Rightarrow> int \<Rightarrow> int \<Rightarrow> GameState" where
  "newEngine playerNames startingChips sBlind bBlind =
     initializeGame\<lparr>smallBlind := sBlind, bigBlind := bBlind, lastRaiseAmount := bBlind,
       players := map (\<lambda>(nm, idx). \<lparr>player_id = idx, name = nm, chips = startingChips, holeCards = [],
                                      isActive = True, isFolded = False, isAllIn = False,
                                      currentBet = 0, totalBetInRound = 0, isAI = False\<rparr>)
                    (zip playerNames [0..<length playerNames])\<rparr>"

subsection \<open>Example hands and tables\<close>

definition wheel_hand :: "Card list" where
  "wheel_hand = [\<lparr>rank = 14, suit = Diamonds\<rparr>, \<lparr>rank = 2, suit = Clubs\<rparr>, \<lparr>rank = 3, suit = Hearts\<rparr>,
                 \<lparr>rank = 4, suit = Spades\<rparr>, \<lparr>rank = 5, suit = Diamonds\<rparr>]"

definition six_high_hand :: "Card list" where
  "six_high_hand = [\<lparr>rank = 2, suit = Hearts\<rparr>, \<lparr>rank = 3, suit = Spades\<rparr>, \<lparr>rank = 4, suit = Diamonds\<rparr>,
                    \<lparr>rank = 5, suit = Clubs\<rparr>, \<lparr>rank = 6, suit = Hearts\<rparr>]"

definition royal_hand :: "Card list" where
  "royal_hand = [\<lparr>rank = 10, suit = Spades\<rparr>, \<lparr>rank = 11, suit = Spades\<rparr>, \<lparr>rank = 12, suit = Spades\<rparr>,
                 \<lparr>rank = 13, suit = Spades\<rparr>, \<lparr>rank = 14, suit = Spades\<rparr>]"

definition seven_high_hand :: "Card list" where
  "seven_high_hand = [\<lparr>rank = 2, suit = Clubs\<rparr>, \<lparr>rank = 3, suit = Diamonds\<rparr>, \<lparr>rank = 4, suit = Hearts\<rparr>,
                      \<lparr>rank = 5, suit = Spades\<rparr>, \<lparr>rank = 7, suit = Clubs\<rparr>]"

definition wheel_eval :: HandEvaluation where
  "wheel_eval = \<lparr>handRank = Straight, handValue = Num 5000014, description = ''Straight'',
                 handCards = [\<lparr>rank = 14, suit = Diamonds\<rparr>, \<lparr>rank = 5, suit = Diamonds\<rparr>,
                              \<lparr>rank = 4, suit = Spades\<rparr>, \<lparr>rank = 3, suit = Hearts\<rparr>,
                              \<lparr>rank = 2, suit = Clubs\<rparr>]\<rparr>"

definition six_high_eval :: HandEvaluation where
  "six_high_eval = \<lparr>handRank = Straight, handValue = Num 5000006, description = ''Straight'',
                    handCards = [\<lparr>rank = 6, suit = Hearts\<rparr>, \<lparr>rank = 5, suit = Clubs\<rparr>,
                                 \<lparr>rank = 4, suit = Diamonds\<rparr>, \<lparr>rank = 3, suit = Spades\<rparr>,
                                 \<lparr>rank = 2, suit = Hearts\<rparr>]\<rparr>"

definition royal_eval :: HandEvaluation where
  "royal_eval = \<lparr>handRank = RoyalFlush, handValue = Num 10000000, description = ''Royal Flush'',
                 handCards = [\<lparr>rank = 14, suit = Spades\<rparr>, \<lparr>rank = 13, suit = Spades\<rparr>,
                              \<lparr>rank = 12, suit = Spades\<rparr>, \<lparr>rank = 11, suit = Spades\<rparr>,
                              \<lparr>rank = 10, suit = Spades\<rparr>]\<rparr>"

definition seven_high_eval :: HandEvaluation where
  "seven_high_eval = \<lparr>handRank = HighCard, handValue = Num 706040302, description = ''High Card'',
                      handCards = [\<lparr>rank = 7, suit = Clubs\<rparr>, \<lparr>rank = 5, suit = Spades\<rparr>,
                                   \<lparr>rank = 4, suit = Hearts\<rparr>, \<lparr>rank = 3, suit = Diamonds\<rparr>,
                                   \<lparr>rank = 2, suit = Clubs\<rparr>]\<rparr>"

definition king_high_straight_flush :: "Card list" where
  "king_high_straight_flush =
     [\<lparr>rank = 9, suit = Hearts\<rparr>, \<lparr>rank = 10, suit = Hearts\<rparr>, \<lparr>rank = 11, suit = Hearts\<rparr>,
      \<lparr>rank = 12, suit = Hearts\<rparr>, \<lparr>rank = 13, suit = Hearts\<rparr>]"

definition king_high_straight_flush_eval :: HandEvaluation where
  "king_high_straight_flush_eval =
     \<lparr>handRank = StraightFlush, handValue = Num 9000013, description = ''Straight Flush'',
      handCards = [\<lparr>rank = 13, suit = Hearts\<rparr>, \<lparr>rank = 12, suit = Hearts\<rparr>,
                   \<lparr>rank = 11, suit = Hearts\<rparr>, \<lparr>rank = 10, suit = Hearts\<rparr>,
                   \<lparr>rank = 9, suit = Hearts\<rparr>]\<rparr>"

text \<open>
  Three players at the showdown: seat 0 all-in for 50, seat 1 all-in for 100, seat 2 with 200
  in the pot and chips behind.
\<close>

definition side_pot_table :: GameState where
  "side_pot_table =
     initializeGame\<lparr>stage := Showdown, pot := 350, players :=
       [\<lparr>player_id = 0, name = ''A'', chips = 0, holeCards = [], isActive = True, isFolded = False,
         isAllIn = True, currentBet = 0, totalBetInRound = 50, isAI = False\<rparr>,
        \<lparr>player_id = 1, name = ''B'', chips = 0, holeCards = [], isActive = True, isFolded = False,
         isAllIn = True, currentBet = 0, totalBetInRound = 100, isAI = False\<rparr>,
        \<lparr>player_id = 2, name = ''C'', chips = 300, holeCards = [], isActive = True, isFolded = False,
         isAllIn = False, currentBet = 0, totalBetInRound = 200, isAI = False\<rparr>]\<rparr>"

text \<open>The deck in index order, and a heads-up table of two players with 1000 chips, blinds 10 and 20.\<close>

definition ordered_deck :: "Card list" where
  "ordered_deck = map (\<lambda>n. decodeCard (word_of_nat n)) [0..<52]"

definition heads_up_table :: GameState where
  "heads_up_table = newEngine [''Alice'', ''Bob''] 1000 10 20"

text \<open>The heads-up table after its first hand has started from the ordered deck.\<close>

definition heads_up_preflop :: GameState where
  "heads_up_preflop =
     \<lparr>players =
        [\<lparr>player_id = 0, name = ''Alice'', chips = 980,
          holeCards = [\<lparr>rank = 2, suit = Hearts\<rparr>, \<lparr>rank = 2, suit = Clubs\<rparr>],
          isActive = True, isFolded = False, isAllIn = False, currentBet = 20,
          totalBetInRound = 20, isAI = False\<rparr>,
         \<lparr>player_id = 1, name = ''Bob'', chips = 990,
          holeCards = [\<lparr>rank = 2, suit = Diamonds\<rparr>, \<lparr>rank = 2, suit = Spades\<rparr>],
          isActive = True, isFolded = False, isAllIn = False, currentBet = 10,
          totalBetInRound = 10, isAI = False\<rparr>],
      deck = drop 4 ordered_deck, communityCards = [], pot = 30, tableCurrentBet = 20,
      stage = PreFlop, dealerPosition = 1, smallBlindPosition = 1, bigBlindPosition = 0,
      currentPlayerIndex = 1, lastToActIndex = 0, lastRaiseAmount = 20, smallBlind = 10,
      bigBlind = 20, sidePots = [], bettingActions = 0, logs = [''--- New Hand ---'']\<rparr>"

subsection \<open>Chip accounting\<close>

definition totalChips :: "GameState \<Rightarrow> int" where
  "totalChips st = sum_list (map chips (players st))"

definition noNegativeChips :: "GameState \<Rightarrow> bool" where
  "noNegativeChips st = list_all (\<lambda>p. 0 \<le> chips p) (players st)"

text \<open>
  The tables on which every stack, the pot and their sums are integers that a \<^verbatim>\<open>number\<close>
  holds exactly: no stack and no pot below zero, and at most \<open>2^53\<close> chips in all.
\<close>

definition exactRange :: "GameState \<Rightarrow> bool" where
  "exactRange st = (noNegativeChips st \<and> 0 \<le> pot st \<and> totalChips st + pot st \<le> 2 ^ 53)"

text \<open>
  An operation of the player at seat \<open>i\<close>, started in \<open>st\<close>, conserves the chips when it
  returns a state in which the pot has grown by some \<open>w\<close> between \<open>0\<close> and the player's
  stack, the player's stack has shrunk by the same \<open>w\<close> and every other stack is what it
  was: the stacks and the pot add up as before, and the table is still in the exact range,
  with no stack below zero.
\<close>

definition conserves :: "nat \<Rightarrow> GameState \<Rightarrow> js_error + GameState \<Rightarrow> bool" where
  "conserves i st r =
     (case r of
        Inl e \<Rightarrow> False
      | Inr st' \<Rightarrow>
         (let w = pot st' - pot st in
          0 \<le> w \<and> w \<le> chips (players st ! i) \<and>
          map chips (players st') = (map chips (players st))[i := chips (players st ! i) - w] \<and>
          totalChips st' + pot st' = totalChips st + pot st \<and> exactRange st'))"

text \<open>The heads-up example with \<open>2^53\<close> chips in the pot.\<close>

definition deep_pot_table :: GameState where
  "deep_pot_table = heads_up_preflop\<lparr>pot := 2 ^ 53\<rparr>"

text \<open>
  A showdown of two players on the board 9-9-9-9-5: seat 0 holds an ace and a five, seat 1
  a king and a queen.
\<close>

definition quads_board :: "Card list" where
  "quads_board = [\<lparr>rank = 9, suit = Hearts\<rparr>, \<lparr>rank = 9, suit = Diamonds\<rparr>, \<lparr>rank = 9, suit = Clubs\<rparr>,
                  \<lparr>rank = 9, suit = Spades\<rparr>, \<lparr>rank = 5, suit = Hearts\<rparr>]"

definition ace_kicker_hole :: "Card list" where
  "ace_kicker_hole = [\<lparr>rank = 14, suit = Spades\<rparr>, \<lparr>rank = 5, suit = Spades\<rparr>]"

definition king_kicker_hole :: "Card list" where
  "king_kicker_hole = [\<lparr>rank = 13, suit = Spades\<rparr>, \<lparr>rank = 12, suit = Spades\<rparr>]"

definition quads_table :: GameState where
  "quads_table =
     initializeGame\<lparr>stage := Showdown, pot := 200, communityCards := quads_board, players :=
       [\<lparr>player_id = 0, name = ''Alice'', chips = 900, holeCards = ace_kicker_hole, isActive = True,
         isFolded = False, isAllIn = False, currentBet = 0, totalBetInRound = 100, isAI = False\<rparr>,
        \<lparr>player_id = 1, name = ''Bob'', chips = 900, holeCards = king_kicker_hole, isActive = True,
         isFolded = False, isAllIn = False, currentBet = 0, totalBetInRound = 100, isAI = False\<rparr>]\<rparr>"

text \<open>A table with a single player, and the 52 bytes 0..51 in order.\<close>

definition lonely_table :: GameState where
  "lonely_table = newEngine [''Alice''] 1000 10 20"

definition ordered_bytes :: "uint8 list" where
  "ordered_bytes = map word_of_nat [0..<52]"

section \<open>Verified properties\<close>

subsection \<open>The shuffle is a permutation\<close>

lemma shuffle_j_bound:
  fixes i :: uint8 and s' :: uint256
  assumes "unat i < 52"
  shows "unat (ucast (s' mod ucast (i + 1)) :: uint8) < unat i + 1"
proof -
  have i1: "unat (i + 1) = unat i + 1"
    using assms by (simp add: unat_word_ariths)
  have k: "unat (ucast (i + 1) :: uint256) = unat i + 1"
  proof -
    have "unat (i + 1) < 2 ^ 256" using i1 assms by simp
    then show ?thesis using i1 by (simp add: unsigned_ucast_eq take_bit_nat_eq_self)
  qed
  have "unat (s' mod ucast (i + 1)) = unat s' mod (unat i + 1)"
    by (simp add: unat_mod k)
  then have lt: "unat (s' mod ucast (i + 1)) < unat i + 1"
    by simp
  then have "unat (s' mod ucast (i + 1)) < 256" using assms by simp
  then have "unat (ucast (s' mod ucast (i + 1)) :: uint8) = unat (s' mod ucast (i + 1))"
    by (simp add: unsigned_ucast_eq take_bit_nat_eq_self)
  with lt show ?thesis by simp
qed

lemma shuffle_loop_mset:
  "unat i < length cells \<Longrightarrow> length cells = 52 \<Longrightarrow>
   mset (shuffle_loop h i s cells) = mset cells \<and> length (shuffle_loop h i s cells) = 52"
proof (induction h i s cells rule: shuffle_loop.induct)
  case (1 keccak256 i s cells)
  show ?case
  proof (cases "0 < i")
    case False
    then have "shuffle_loop keccak256 i s cells = cells"
      by (subst shuffle_loop.simps) simp
    then show ?thesis using 1 by simp
  next
    case True
    define s' where "s' = keccak256 (encodePacked_uint256_uint8 s i)"
    define j where "j = (ucast (s' mod ucast (i + 1)) :: uint8)"
    define cells2 where "cells2 = cells[unat i := cells ! unat j, unat j := cells ! unat i]"
    have ib: "unat i < 52" using 1 by simp
    have jb: "unat j < 52" using shuffle_j_bound[OF ib, of s'] ib by (simp add: j_def)
    have m: "mset cells2 = mset cells"
      unfolding cells2_def using mset_swap[of "unat j" cells "unat i"] ib jb 1 by simp
    have l: "length cells2 = 52" using 1 by (simp add: cells2_def)
    have i1: "unat (i - 1) < length cells2"
      using True ib l by (simp add: unat_minus_one word_greater_zero_iff)
    have step: "shuffle_loop keccak256 i s cells = shuffle_loop keccak256 (i - 1) s' cells2"
      using True by (subst shuffle_loop.simps) (simp add: Let_def s'_def j_def cells2_def)
    have IH: "mset (shuffle_loop keccak256 (i - 1) s' cells2) = mset cells2 \<and>
              length (shuffle_loop keccak256 (i - 1) s' cells2) = 52"
      using "1.IH"[OF True refl refl refl refl refl] i1 l
      by (simp add: s'_def j_def cells2_def)
    show ?thesis using step IH m by simp
  qed
qed

lemma unat_initial_deck: "map unat initial_deck = [0..<52]"
proof -
  have "map (\<lambda>n. unat (word_of_nat n :: uint8)) [0..<52] = map (\<lambda>n. n) [0..<52]"
    by (rule map_cong) (auto simp: unat_of_nat)
  then show ?thesis unfolding initial_deck_def by (simp only: map_map comp_def map_ident)
qed

lemma length_initial_deck: "length initial_deck = 52"
  unfolding initial_deck_def by simp

lemma pack_deck_id: "length cells = 52 \<Longrightarrow> pack_deck cells = cells"
  unfolding pack_deck_def using map_nth[of cells] by simp

lemma mset_upt_distinct: "mset xs = mset [0..<n] \<Longrightarrow> distinct xs \<and> set xs = {0..<n}"
  using mset_eq_imp_distinct_iff[of xs "[0..<n]"] mset_eq_setD[of xs "[0..<n]"] by simp

lemma shuffle_perm:
  "length (shuffle keccak256 seed) = 52 \<and> mset (map unat (shuffle keccak256 seed)) = mset [0..<52]"
proof -
  define d where "d = shuffle_loop keccak256 51 seed initial_deck"
  have inv: "mset d = mset initial_deck \<and> length d = 52"
    unfolding d_def by (rule shuffle_loop_mset) (simp_all only: length_initial_deck, simp_all)
  then have sh: "shuffle keccak256 seed = d"
    unfolding shuffle_def d_def[symmetric] by (simp only: pack_deck_id)
  have "mset (map unat d) = image_mset unat (mset initial_deck)"
    using inv by (simp only: mset_map)
  also have "\<dots> = mset (map unat initial_deck)" by (simp only: mset_map)
  finally have m: "mset (map unat d) = mset [0..<52]"
    by (simp only: unat_initial_deck)
  show ?thesis using inv m unfolding sh by blast
qed

lemma shuffle_nth_less:
  assumes "k < 52" shows "shuffle keccak256 seed ! k < 52"
proof -
  have "unat (shuffle keccak256 seed ! k) \<in> set (map unat (shuffle keccak256 seed))"
    using assms shuffle_perm[of keccak256 seed] by simp
  also have "\<dots> = {0..<52}"
    using shuffle_perm[of keccak256 seed] mset_upt_distinct by blast
  finally have "unat (shuffle keccak256 seed ! k) < 52" by simp
  then show ?thesis by (simp add: word_less_nat_alt)
qed

text \<open>
  C1. For every seed (and whatever function \<^verbatim>\<open>keccak256\<close> is), \<^verbatim>\<open>_shuffle(seed)\<close> returns
  exactly 52 bytes, and they are a permutation of the card indices 0..51: as a multiset
  they are the indices 0..51, so no index occurs twice and none is missing.
\<close>

theorem shuffle_is_permutation:
  "length (shuffle keccak256 seed) = 52 \<and>
   mset (map unat (shuffle keccak256 seed)) = mset [0..<52] \<and>
   distinct (shuffle keccak256 seed) \<and>
   set (map unat (shuffle keccak256 seed)) = {0..<52}"
proof -
  have p: "length (shuffle keccak256 seed) = 52 \<and>
      mset (map unat (shuffle keccak256 seed)) = mset [0..<52]"
    by (rule shuffle_perm)
  then have ds: "distinct (map unat (shuffle keccak256 seed)) \<and>
      set (map unat (shuffle keccak256 seed)) = {0..<52}"
    using mset_upt_distinct by blast
  then have "distinct (shuffle keccak256 seed)" by (simp only: distinct_map)
  then show ?thesis using p ds by blast
qed

subsection \<open>Reveal and verification\<close>

lemma verify_from_reaches_bad_position:
  "i \<le> k \<Longrightarrow> k < length dealtCards \<Longrightarrow> \<not> cardPositions ! k < 52 \<Longrightarrow>
   (\<And>m. i \<le> m \<Longrightarrow> m < k \<Longrightarrow>
       cardPositions ! m < 52 \<and> shuffled ! unat (cardPositions ! m) = dealtCards ! m) \<Longrightarrow>
   isl (verify_from shuffled dealtCards cardPositions i)"
proof (induction shuffled dealtCards cardPositions i rule: verify_from.induct)
  case (1 shuffled dealtCards cardPositions i)
  show ?case
  proof (cases "i = k")
    case True
    then show ?thesis using 1(3,4) by (subst verify_from.simps) (simp add: Let_def)
  next
    case False
    then have ik: "i < k" using 1(2) by simp
    have ok: "cardPositions ! i < 52 \<and> shuffled ! unat (cardPositions ! i) = dealtCards ! i"
      using 1(5)[of i] ik by simp
    have il: "i < length dealtCards" using ik 1(3) by simp
    have "isl (verify_from shuffled dealtCards cardPositions (i + 1))"
      using "1.IH"[OF il refl] ok ik 1(3,4,5) by simp
    then show ?thesis using ok il by (subst verify_from.simps) (simp add: Let_def)
  qed
qed

text \<open>
  C4. For a session whose randomness has been fulfilled, \<^verbatim>\<open>revealAndVerify\<close> with a salt whose
  hash differs from the stored \<^verbatim>\<open>saltHash\<close> reverts, whatever \<^verbatim>\<open>dealtCards\<close> and
  \<^verbatim>\<open>cardPositions\<close> are: no validity result is returned, the storage after the call is the
  storage before it, and the session is not marked ended.
\<close>

theorem revealAndVerify_salt_mismatch_fails:
  assumes "vrfFulfilled (games st gameId)"
      and "keccak (encodePacked_bytes32 salt) \<noteq> saltHash (games st gameId)"
  shows "isl (revealAndVerify keccak gameId salt dealtCards cardPositions st) \<and>
         snd (transact (revealAndVerify keccak gameId salt dealtCards cardPositions) st) = st \<and>
         gameEnded (games (snd (transact (revealAndVerify keccak gameId salt dealtCards cardPositions) st)) gameId)
           = gameEnded (games st gameId)"
proof -
  have a: "isl (revealAndVerify keccak gameId salt dealtCards cardPositions st)"
    using assms by (simp add: revealAndVerify_def Let_def)
  then have "snd (transact (revealAndVerify keccak gameId salt dealtCards cardPositions) st) = st"
    by (auto simp: transact_def isl_def)
  with a show ?thesis by simp
qed

theorem revealAndVerify_salt_mismatch_fails_witness:
  "vrfFulfilled (games example_ledger 2) \<and>
   example_keccak (encodePacked_bytes32 7) \<noteq> saltHash (games example_ledger 2) \<and>
   isl (revealAndVerify example_keccak 2 7 [0] [0] example_ledger) \<and>
   snd (transact (revealAndVerify example_keccak 2 7 [0] [0]) example_ledger) = example_ledger"
proof -
  have h1: "vrfFulfilled (games example_ledger 2)"
    by (simp add: example_ledger_def)
  have h2: "example_keccak (encodePacked_bytes32 7) \<noteq> saltHash (games example_ledger 2)"
    by (simp add: example_ledger_def example_keccak_def)
  from revealAndVerify_salt_mismatch_fails[where st = example_ledger and gameId = 2
      and keccak = example_keccak and salt = 7 and dealtCards = "[0]" and cardPositions = "[0]", OF h1 h2] h1 h2
  show ?thesis by blast
qed

lemma isl_aborts: "isl (tx st) \<Longrightarrow> aborts tx st"
  by (auto simp: aborts_def transact_def isl_def)

lemma reveal_requires:
  assumes "\<not> (vrfFulfilled (games st gameId) \<and> \<not> gameEnded (games st gameId) \<and>
      length dealtCards = length cardPositions \<and>
      keccak (encodePacked_bytes32 salt) = saltHash (games st gameId))"
  shows "isl (revealAndVerify keccak gameId salt dealtCards cardPositions st)"
proof (cases "vrfFulfilled (games st gameId)")
  case False
  then show ?thesis by (simp add: revealAndVerify_def Let_def)
next
  case v: True
  show ?thesis
  proof (cases "gameEnded (games st gameId)")
    case True
    then show ?thesis using v by (simp add: revealAndVerify_def Let_def)
  next
    case e: False
    show ?thesis
    proof (cases "length dealtCards = length cardPositions")
      case False
      then show ?thesis using v e by (simp add: revealAndVerify_def Let_def)
    next
      case True
      then show ?thesis using v e assms by (simp add: revealAndVerify_def Let_def)
    qed
  qed
qed

lemma commitSalt_twice_aborts:
  "saltHash (games st gameId) \<noteq> 0 \<Longrightarrow> aborts (commitSalt sender gameId sHash) st"
  by (rule isl_aborts) (simp add: commitSalt_def)

lemma reveal_unfulfilled_aborts:
  "\<not> vrfFulfilled (games st gameId) \<Longrightarrow>
   aborts (revealAndVerify keccak gameId salt dealtCards cardPositions) st"
  by (rule isl_aborts) (simp add: revealAndVerify_def Let_def)

lemma reveal_mismatch_aborts:
  "keccak (encodePacked_bytes32 salt) \<noteq> saltHash (games st gameId) \<Longrightarrow>
   aborts (revealAndVerify keccak gameId salt dealtCards cardPositions) st"
  by (rule isl_aborts) (simp add: revealAndVerify_def Let_def)

lemma reveal_bad_position_aborts:
  assumes k: "k < length cardPositions" and bad: "\<not> cardPositions ! k < 52"
    and ok: "\<And>i. i < k \<Longrightarrow> cardPositions ! i < 52 \<and>
       shuffle keccak (keccak (encodePacked_bytes32_bytes32 (pythSeed (games st gameId)) salt))
         ! unat (cardPositions ! i) = dealtCards ! i"
  shows "aborts (revealAndVerify keccak gameId salt dealtCards cardPositions) st"
proof (rule isl_aborts)
  let ?deck = "shuffle keccak (keccak (encodePacked_bytes32_bytes32 (pythSeed (games st gameId)) salt))"
  show "isl (revealAndVerify keccak gameId salt dealtCards cardPositions st)"
  proof (cases "vrfFulfilled (games st gameId) \<and> \<not> gameEnded (games st gameId) \<and>
      length dealtCards = length cardPositions \<and>
      keccak (encodePacked_bytes32 salt) = saltHash (games st gameId)")
    case False
    then show ?thesis by (rule reveal_requires)
  next
    case True
    have "isl (verify_from ?deck dealtCards cardPositions 0)"
    proof (rule verify_from_reaches_bad_position[where k = k])
      show "0 \<le> k" by simp
      show "k < length dealtCards" using k True by simp
      show "\<not> cardPositions ! k < 52" using bad .
      show "cardPositions ! m < 52 \<and> ?deck ! unat (cardPositions ! m) = dealtCards ! m"
        if "m < k" for m using ok[OF that] .
    qed
    then obtain e where "verify_from ?deck dealtCards cardPositions 0 = Inl e"
      by (cases "verify_from ?deck dealtCards cardPositions 0") simp_all
    then show ?thesis using True
      by (simp add: revealAndVerify_def Let_def)
  qed
qed

text \<open>
  C5, as the contract has it. Committing to a game id that already holds a commitment,
  revealing before the randomness is fulfilled, and revealing a salt that does not hash to
  the commitment abort and leave the storage as it was. A claimed position of 52 or more
  aborts the call when the verification loop reaches it, that is when every pair before it
  is in range and agrees with the replayed deck.
\<close>

theorem protocol_violations_abort:
  "(saltHash (games st gameId) \<noteq> 0 \<longrightarrow> aborts (commitSalt sender gameId sHash) st) \<and>
   (\<not> vrfFulfilled (games st gameId) \<longrightarrow>
      aborts (revealAndVerify keccak gameId salt dealtCards cardPositions) st) \<and>
   (keccak (encodePacked_bytes32 salt) \<noteq> saltHash (games st gameId) \<longrightarrow>
      aborts (revealAndVerify keccak gameId salt dealtCards cardPositions) st) \<and>
   (k < length cardPositions \<and> \<not> cardPositions ! k < 52 \<and>
    (\<forall>i<k. cardPositions ! i < 52 \<and>
       shuffle keccak (keccak (encodePacked_bytes32_bytes32 (pythSeed (games st gameId)) salt))
         ! unat (cardPositions ! i) = dealtCards ! i) \<longrightarrow>
      aborts (revealAndVerify keccak gameId salt dealtCards cardPositions) st)"
  using commitSalt_twice_aborts[of st gameId sender sHash]
    reveal_unfulfilled_aborts[of st gameId keccak salt dealtCards cardPositions]
    reveal_mismatch_aborts[of keccak salt st gameId dealtCards cardPositions]
    reveal_bad_position_aborts[of k cardPositions keccak st gameId salt dealtCards]
  by blast

theorem protocol_violations_abort_witness:
  "(saltHash (games example_ledger 1) \<noteq> 0 \<and> aborts (commitSalt 0 1 5) example_ledger) \<and>
   (\<not> vrfFulfilled (games example_ledger 3) \<and>
      aborts (revealAndVerify example_keccak 3 7 [] []) example_ledger) \<and>
   (example_keccak (encodePacked_bytes32 7) \<noteq> saltHash (games example_ledger 2) \<and>
      aborts (revealAndVerify example_keccak 2 7 [] []) example_ledger) \<and>
   ((1::nat) < length [0, 52 :: uint8] \<and> \<not> [0, 52 :: uint8] ! 1 < 52 \<and>
      aborts (revealAndVerify example_keccak 1 7
                [shuffle example_keccak (example_keccak (encodePacked_bytes32_bytes32 9 7)) ! 0, 0]
                [0, 52]) example_ledger)"
proof -
  have h1: "saltHash (games example_ledger 1) \<noteq> 0"
    by (simp add: example_ledger_def)
  have h2: "\<not> vrfFulfilled (games example_ledger 3)"
    by (simp add: example_ledger_def)
  have h3: "example_keccak (encodePacked_bytes32 7) \<noteq> saltHash (games example_ledger 2)"
    by (simp add: example_ledger_def example_keccak_def)
  have p: "pythSeed (games example_ledger 1) = 9"
    by (simp add: example_ledger_def)
  have h4: "(1::nat) < length [0, 52 :: uint8] \<and> \<not> [0, 52 :: uint8] ! 1 < 52 \<and>
    (\<forall>i<1. [0, 52 :: uint8] ! i < 52 \<and>
       shuffle example_keccak (example_keccak (encodePacked_bytes32_bytes32 (pythSeed (games example_ledger 1)) 7))
         ! unat ([0, 52 :: uint8] ! i) =
       [shuffle example_keccak (example_keccak (encodePacked_bytes32_bytes32 9 7)) ! 0, 0] ! i)"
    by (simp add: p)
  note t = protocol_violations_abort
  from t[of example_ledger 1 0 5, THEN conjunct1] h1
    t[of example_ledger 3 _ _ example_keccak 7 "[]" "[]", THEN conjunct2, THEN conjunct1] h2
    t[of example_ledger 2 _ _ example_keccak 7 "[]" "[]", THEN conjunct2, THEN conjunct2, THEN conjunct1] h3
    t[of example_ledger 1 _ _ example_keccak 7
        "[shuffle example_keccak (example_keccak (encodePacked_bytes32_bytes32 9 7)) ! 0, 0]"
        "[0, 52]" 1, THEN conjunct2, THEN conjunct2, THEN conjunct2] h4
  show ?thesis by blast
qed

text \<open>
  C5 as stated fails: the loop stops at the first card that differs from the deck, so a
  position of 52 or more that comes after a mismatch is never checked. The call then
  returns \<open>false\<close> and the session is marked ended.
\<close>

theorem bad_position_after_mismatch_counterexample:
  "\<not> [0, 52 :: uint8] ! 1 < 52 \<and>
   \<not> isl (revealAndVerify example_keccak 1 7 [255, 0] [0, 52] example_ledger) \<and>
   fst (transact (revealAndVerify example_keccak 1 7 [255, 0] [0, 52]) example_ledger) = Inr False \<and>
   gameEnded (games (snd (transact (revealAndVerify example_keccak 1 7 [255, 0] [0, 52]) example_ledger)) 1) \<and>
   \<not> aborts (revealAndVerify example_keccak 1 7 [255, 0] [0, 52]) example_ledger"
proof -
  let ?deck = "shuffle example_keccak (example_keccak (encodePacked_bytes32_bytes32 9 7))"
  have "?deck ! 0 < 52" by (rule shuffle_nth_less) simp
  then have ne: "?deck ! 0 \<noteq> 255" by auto
  have v: "verify_from ?deck [255, 0] [0, 52] 0 = Inr False"
    using ne by (subst verify_from.simps) (simp add: Let_def)
  have r: "revealAndVerify example_keccak 1 7 [255, 0] [0, 52] example_ledger =
        Inr (False, example_ledger\<lparr>games := (games example_ledger)(1 :=
               (games example_ledger 1)\<lparr>revealedSalt := 7, gameEnded := True, verified := False\<rparr>),
             events := events example_ledger @
               [GameVerified 1 7 (example_keccak (encodePacked_bytes32_bytes32 9 7)) False]\<rparr>)"
    unfolding revealAndVerify_def Let_def
    using v by (simp add: example_ledger_def example_keccak_def)
  show ?thesis
    unfolding aborts_def transact_def r by simp
qed

subsection \<open>Hand evaluations and the winner\<close>

lemma selectWinners_two:
  assumes "handValue e1 = Num v1" and "handValue e2 = Num v2"
  shows "selectWinners [(a, e1), (b, e2)] =
     (if HandRank_number (handRank e2) < HandRank_number (handRank e1) then [a]
      else if HandRank_number (handRank e1) < HandRank_number (handRank e2) then [b]
      else if v2 < v1 then [a]
      else if v1 < v2 then [b]
      else [a, b])"
  using assms
  by (auto simp: selectWinners_def Math_max_def strict_eq_def Let_def max_def)

lemma evaluateHand_royal: "evaluateHand royal_hand = Inr royal_eval"
  by code_simp

lemma evaluateHand_seven_high: "evaluateHand seven_high_hand = Inr seven_high_eval"
  by code_simp

text \<open>
  C2. The value does not tell the winning hand. On the board 9-9-9-9-5 the player with an ace
  and a five holds four nines with an ace, the best hand there is on this board; the
  evaluator takes for the kicker the rank that comes next by count, the five of which there
  are two, and gives the value 8000905. The player with a king and a queen gets 8000913:
  the greater value, and \<^verbatim>\<open>evaluateWinners\<close> names this player the only winner. Across
  categories the values are not ordered either: a seven-high hand has the value 706040302,
  a royal flush 10000000; there the winner selection goes by the rank category first and the
  royal flush wins.
\<close>

theorem value_does_not_tell_winner:
  "map_sum id (\<lambda>e. (handRank e, handValue e, map rank (handCards e)))
      (evaluateHand (ace_kicker_hole @ quads_board))
     = Inr (FourOfAKind, Num 8000905, [9, 9, 9, 9, 5]) \<and>
   map_sum id (\<lambda>e. (handRank e, handValue e, map rank (handCards e)))
      (evaluateHand (king_kicker_hole @ quads_board))
     = Inr (FourOfAKind, Num 8000913, [13, 9, 9, 9, 9]) \<and>
   map (\<lambda>p. holeCards p @ communityCards quads_table) (players quads_table)
     = [ace_kicker_hole @ quads_board, king_kicker_hole @ quads_board] \<and>
   map (map_option player_id) (fst (evaluateWinners quads_table)) = [Some 1] \<and>
   evaluateHand royal_hand = Inr royal_eval \<and> handValue royal_eval = Num 10000000 \<and>
   evaluateHand seven_high_hand = Inr seven_high_eval \<and> handValue seven_high_eval = Num 706040302 \<and>
   selectWinners [(0, royal_eval), (1, seven_high_eval)] = [0]"
proof -
  have a: "map_sum id (\<lambda>e. (handRank e, handValue e, map rank (handCards e)))
      (evaluateHand (ace_kicker_hole @ quads_board))
     = Inr (FourOfAKind, Num 8000905, [9, 9, 9, 9, 5])"
    by code_simp
  have b: "map_sum id (\<lambda>e. (handRank e, handValue e, map rank (handCards e)))
      (evaluateHand (king_kicker_hole @ quads_board))
     = Inr (FourOfAKind, Num 8000913, [13, 9, 9, 9, 9])"
    by code_simp
  have c: "map (\<lambda>p. holeCards p @ communityCards quads_table) (players quads_table)
     = [ace_kicker_hole @ quads_board, king_kicker_hole @ quads_board]"
    by (simp add: quads_table_def)
  have d: "map (map_option player_id) (fst (evaluateWinners quads_table)) = [Some 1]"
    by code_simp
  have e: "selectWinners [(0, royal_eval), (1, seven_high_eval)] = [0]"
    by code_simp
  show ?thesis
    using a b c d e evaluateHand_royal evaluateHand_seven_high
    by (simp add: royal_eval_def seven_high_eval_def)
qed

text \<open>
  C3. The wheel A-2-3-4-5 is evaluated as a Straight, but with the ace as its first card: its
  value is 5000014, above the 5000006 of the six-high straight, and the winner selection
  prefers the wheel.
\<close>

theorem wheel_beats_six_high:
  "evaluateHand wheel_hand = Inr wheel_eval \<and> handRank wheel_eval = Straight \<and>
   handValue wheel_eval = Num 5000014 \<and>
   evaluateHand six_high_hand = Inr six_high_eval \<and> handRank six_high_eval = Straight \<and>
   handValue six_high_eval = Num 5000006 \<and>
   selectWinners [(0, wheel_eval), (1, six_high_eval)] = [0]"
proof -
  have a: "evaluateHand wheel_hand = Inr wheel_eval" by code_simp
  have b: "evaluateHand six_high_hand = Inr six_high_eval" by code_simp
  have c: "selectWinners [(0, wheel_eval), (1, six_high_eval)] = [0]" by code_simp
  show ?thesis using a b c by (simp add: wheel_eval_def six_high_eval_def)
qed

subsection \<open>Side pots\<close>

text \<open>
  C6. With seat 0 all-in for 50, seat 1 all-in for 100 and seat 2 in for 200, the pots add up
  to the 350 contributed, but the last pot, made of the 100 chips above the last all-in
  level, lists every player as eligible, seats 0 and 1 included.
\<close>

theorem main_pot_eligibility:
  "sidePots (calculateSidePots side_pot_table) =
     [\<lparr>amount = 150, eligiblePlayers = [0, 1, 2]\<rparr>,
      \<lparr>amount = 100, eligiblePlayers = [1, 2]\<rparr>,
      \<lparr>amount = 100, eligiblePlayers = [0, 1, 2]\<rparr>] \<and>
   map totalBetInRound (players side_pot_table) = [50, 100, 200]"
  by code_simp

subsection \<open>Rounding\<close>

lemma ulp_bounds: "0 < ulp m \<and> (1 \<le> m \<longrightarrow> ulp m \<le> m)"
proof (induction m rule: ulp.induct)
  case (1 m)
  show ?case
  proof (cases "m < 2 ^ 53")
    case True
    then show ?thesis by (subst ulp.simps, subst (2) ulp.simps) simp
  next
    case False
    then have "1 \<le> m div 2" by simp
    then have "0 < ulp (m div 2) \<and> ulp (m div 2) \<le> m div 2" using "1.IH"[OF False] by simp
    moreover have "2 * (m div 2) \<le> m" by simp
    ultimately show ?thesis using False by (subst ulp.simps, subst (2) ulp.simps) simp
  qed
qed

lemma round_even_pos:
  assumes "0 < u" and "u \<le> m"
  shows "0 < round_even u m"
proof -
  have "0 < m div u" using assms by (simp add: pos_imp_zdiv_pos_iff)
  then have "0 < m div u * u" using assms by simp
  moreover have "m div u * u \<le> (m div u + 1) * u" using assms by (simp add: distrib_right)
  ultimately show ?thesis by (simp add: round_even_def Let_def)
qed

lemma fl_nonpos: "(fl x \<le> 0) = (x \<le> 0)"
proof (cases "\<bar>x\<bar> \<le> 2 ^ 53")
  case True
  then show ?thesis by (simp add: fl_def)
next
  case False
  then have "1 \<le> \<bar>x\<bar>" by simp
  then have "0 < round_even (ulp \<bar>x\<bar>) \<bar>x\<bar>"
    using ulp_bounds[of "\<bar>x\<bar>"] by (intro round_even_pos) simp_all
  then show ?thesis using False
    by (cases "0 < x") (simp_all add: fl_def sgn_if mult_le_0_iff zero_less_mult_iff)
qed

lemma js_sub_nonpos: "(js_sub a b \<le> 0) = (a \<le> b)"
  by (simp add: js_sub_def fl_nonpos)

lemma js_sub_exact: "\<bar>a - b\<bar> \<le> 2 ^ 53 \<Longrightarrow> js_sub a b = a - b"
  by (simp add: js_sub_def fl_def)

lemma js_add_exact: "\<bar>a + b\<bar> \<le> 2 ^ 53 \<Longrightarrow> js_add a b = a + b"
  by (simp add: js_add_def fl_def)

subsection \<open>Actions that are absorbed\<close>

lemma logs_advanceFrom [simp]: "logs (advanceFrom i st) = logs st"
  by (simp add: advanceFrom_def Let_def split: option.splits)

lemma logs_resetRoundBets [simp]: "logs (resetRoundBets st) = logs st"
  by (simp add: resetRoundBets_def Let_def split: option.splits)

lemma logs_dealStreet [simp]: "logs (dealStreet n st) = logs st"
  by (simp add: dealStreet_def Let_def drawMany_def burn_def)

lemma logs_nextStage: "length (logs st) \<le> length (logs (nextStage st))"
  by (simp add: nextStage_def addLog_def split: GameStage.splits)

lemma logs_runToShowdown: "length (logs st) \<le> length (logs (runToShowdown st))"
proof (induction st rule: runToShowdown.induct)
  case (1 st)
  show ?case
  proof (cases "stage st = Showdown")
    case True
    then have "runToShowdown st = st" by (subst runToShowdown.simps) simp
    then show ?thesis by simp
  next
    case False
    then have "runToShowdown st = runToShowdown (nextStage st)"
      by (subst runToShowdown.simps) simp
    then show ?thesis using "1.IH"[OF False] logs_nextStage[of st] by simp
  qed
qed

lemma logs_postActionHandler: "length (logs st) \<le> length (logs (postActionHandler i st))"
proof -
  let ?s = "advanceFrom i (st\<lparr>bettingActions := bettingActions st + 1\<rparr>)"
  have n: "length (logs st) \<le> length (logs (nextStage ?s))"
    using logs_nextStage[of ?s] by simp
  have r: "length (logs st) \<le> length (logs (runToShowdown (nextStage ?s)))"
    using logs_runToShowdown[of "nextStage ?s"] n by simp
  show ?thesis using n r by (simp add: postActionHandler_def Let_def)
qed

lemma logs_grow:
  "logs s = logs st \<Longrightarrow> length (logs st) < length (logs (postActionHandler i (addLog m s)))"
  using logs_postActionHandler[of "addLog m s" i] by (simp add: addLog_def)

lemma absorbedWhen_iff: "absorbedWhen c st r \<Longrightarrow> (r = Inr st) = c \<and> \<not> isl r"
  by (cases r) (auto simp: absorbedWhen_def split: if_splits)

lemma fold_outcome:
  assumes "i < length (players st)"
  shows "absorbedWhen (isFolded (players st ! i) \<or> isAllIn (players st ! i) \<or> stage st = Showdown)
           st (fold_hand i st)"
  using assms by (simp add: fold_hand_def nth_opt_def absorbedWhen_def logs_grow)

lemma check_outcome:
  assumes "i < length (players st)"
  shows "absorbedWhen (isFolded (players st ! i) \<or> isAllIn (players st ! i) \<or> stage st = Showdown
            \<or> chips (players st ! i) \<le> 0 \<or> currentBet (players st ! i) \<noteq> tableCurrentBet st)
           st (check i st)"
  using assms by (simp add: check_def nth_opt_def absorbedWhen_def logs_grow)

lemma call_outcome:
  assumes "i < length (players st)"
  shows "absorbedWhen (isFolded (players st ! i) \<or> isAllIn (players st ! i) \<or> stage st = Showdown
            \<or> chips (players st ! i) \<le> 0 \<or> tableCurrentBet st < currentBet (players st ! i))
           st (call i st)"
proof (cases "isFolded (players st ! i) \<or> isAllIn (players st ! i) \<or> stage st = Showdown
            \<or> chips (players st ! i) \<le> 0")
  case True
  then show ?thesis using assms by (auto simp: call_def nth_opt_def absorbedWhen_def)
next
  case g: False
  show ?thesis
  proof (cases "tableCurrentBet st \<le> currentBet (players st ! i)")
    case True
    then have "call i st = check i st"
      using assms g by (simp add: call_def nth_opt_def Let_def js_sub_nonpos)
    moreover have "(currentBet (players st ! i) \<noteq> tableCurrentBet st)
        = (tableCurrentBet st < currentBet (players st ! i))"
      using True by auto
    ultimately show ?thesis using check_outcome[OF assms] g by simp
  next
    case False
    then show ?thesis using assms g
      by (simp add: call_def nth_opt_def Let_def js_sub_nonpos absorbedWhen_def logs_grow)
  qed
qed

lemma bet_outcome:
  assumes "i < length (players st)"
  shows "absorbedWhen (isFolded (players st ! i) \<or> isAllIn (players st ! i) \<or> stage st = Showdown
            \<or> chips (players st ! i) \<le> 0 \<or> amt \<le> 0
            \<or> (amt < (if tableCurrentBet st = 0 then bigBlind st else lastRaiseAmount st)
                \<and> amt < chips (players st ! i)
                \<and> tableCurrentBet st < currentBet (players st ! i)))
           st (bet i amt False st)"
proof (cases "isFolded (players st ! i) \<or> isAllIn (players st ! i) \<or> stage st = Showdown
            \<or> chips (players st ! i) \<le> 0 \<or> amt \<le> 0")
  case True
  then show ?thesis using assms by (auto simp: bet_def nth_opt_def absorbedWhen_def)
next
  case g: False
  show ?thesis
  proof (cases "amt < (if tableCurrentBet st = 0 then bigBlind st else lastRaiseAmount st)
                \<and> amt < chips (players st ! i)")
    case True
    then have "bet i amt False st = call i st"
      using assms g by (auto simp: bet_def nth_opt_def Let_def)
    then show ?thesis using call_outcome[OF assms] g True by simp
  next
    case False
    then show ?thesis using assms g
      by (auto simp: bet_def nth_opt_def Let_def absorbedWhen_def logs_grow)
  qed
qed

lemma allIn_outcome:
  assumes "i < length (players st)"
  shows "absorbedWhen (isFolded (players st ! i) \<or> isAllIn (players st ! i) \<or> stage st = Showdown
            \<or> chips (players st ! i) \<le> 0) st (allIn i st)"
proof (cases "isFolded (players st ! i) \<or> isAllIn (players st ! i) \<or> stage st = Showdown
            \<or> chips (players st ! i) \<le> 0")
  case True
  then show ?thesis using assms by (auto simp: allIn_def nth_opt_def absorbedWhen_def)
next
  case g: False
  define st1 where
    "st1 = addLog (name (players st ! i) @ '' goes all-in ('' @ show_int (chips (players st ! i)) @ '')'') st"
  have i1: "i < length (players st1)" using assms by (simp add: st1_def addLog_def)
  have l1: "length (logs st) < length (logs st1)" by (simp add: st1_def addLog_def)
  obtain s' where s': "bet i (chips (players st ! i)) False st1 = Inr s'"
      and l: "length (logs st1) \<le> length (logs s')"
    using bet_outcome[OF i1, of "chips (players st ! i)"]
    by (cases "bet i (chips (players st ! i)) False st1") (auto simp: absorbedWhen_def split: if_splits)
  have "allIn i st = Inr (s'\<lparr>players := (players s')[i := (players s' ! i)\<lparr>isAllIn := True\<rparr>]\<rparr>)"
    using assms g s' by (simp add: allIn_def nth_opt_def st1_def)
  then show ?thesis using g l l1 by (simp add: absorbedWhen_def)
qed

lemma bet_returns:
  "i < length (players st) \<Longrightarrow> \<not> isl (bet i amt skipPost st)"
  by (auto simp: bet_def call_def check_def nth_opt_def Let_def)

text \<open>
  C8, as the engine has it. Whether the seat is \<^verbatim>\<open>currentPlayerIndex\<close> plays no part. For
  every state and every seat of the table, in turn or not, no action signals an error, and
  an action returns the state exactly as it is in these cases and in no other: the player
  has folded, is all-in or the stage is Showdown; for every action but the fold, the player
  has no chips; for a check, the player's bet differs from the table's; for a call, the
  player's bet is above the table's; for a bet (with its log and follow-up, \<^verbatim>\<open>skipPost\<close>
  false), the amount is not positive, or it is below both the minimum raise (the big blind
  when the table's bet is zero, the last raise otherwise) and the player's stack while the
  player's bet is above the table's. In every other case the action is applied and the log
  grows.
\<close>

theorem actions_absorbed_iff:
  assumes "playerId < length (players st)"
  shows
    "(let p = players st ! playerId;
          out = (isFolded p \<or> isAllIn p \<or> stage st = Showdown);
          broke = (chips p \<le> 0);
          ahead = (tableCurrentBet st < currentBet p);
          minRaise = (if tableCurrentBet st = 0 then bigBlind st else lastRaiseAmount st)
      in (fold_hand playerId st = Inr st) = out \<and>
         (check playerId st = Inr st) = (out \<or> broke \<or> currentBet p \<noteq> tableCurrentBet st) \<and>
         (call playerId st = Inr st) = (out \<or> broke \<or> ahead) \<and>
         (bet playerId amt False st = Inr st)
            = (out \<or> broke \<or> amt \<le> 0 \<or> (amt < minRaise \<and> amt < chips p \<and> ahead)) \<and>
         (allIn playerId st = Inr st) = (out \<or> broke) \<and>
         absorbedWhen out st (fold_hand playerId st) \<and>
         absorbedWhen (out \<or> broke \<or> currentBet p \<noteq> tableCurrentBet st) st (check playerId st) \<and>
         absorbedWhen (out \<or> broke \<or> ahead) st (call playerId st) \<and>
         absorbedWhen (out \<or> broke \<or> amt \<le> 0 \<or> (amt < minRaise \<and> amt < chips p \<and> ahead))
            st (bet playerId amt False st) \<and>
         absorbedWhen (out \<or> broke) st (allIn playerId st) \<and>
         \<not> isl (fold_hand playerId st) \<and> \<not> isl (check playerId st) \<and> \<not> isl (call playerId st) \<and>
         \<not> isl (bet playerId amt skipPost st) \<and> \<not> isl (allIn playerId st))"
proof -
  note f = fold_outcome[OF assms] and c = check_outcome[OF assms] and k = call_outcome[OF assms]
    and b = bet_outcome[OF assms, of amt] and a = allIn_outcome[OF assms]
  show ?thesis
    unfolding Let_def
    using f c k b a absorbedWhen_iff[OF f] absorbedWhen_iff[OF c] absorbedWhen_iff[OF k]
      absorbedWhen_iff[OF b] absorbedWhen_iff[OF a] bet_returns[OF assms, of amt skipPost]
    by (simp add: disj_ac conj_ac)
qed

theorem actions_absorbed_iff_witness:
  "(0::nat) < length (players heads_up_preflop) \<and> currentPlayerIndex heads_up_preflop = 1 \<and>
   fold_hand 0 heads_up_preflop \<noteq> Inr heads_up_preflop \<and>
   check 0 heads_up_preflop \<noteq> Inr heads_up_preflop \<and>
   call 0 heads_up_preflop \<noteq> Inr heads_up_preflop \<and>
   bet 0 40 False heads_up_preflop \<noteq> Inr heads_up_preflop \<and>
   bet 0 0 False heads_up_preflop = Inr heads_up_preflop \<and>
   allIn 0 heads_up_preflop \<noteq> Inr heads_up_preflop \<and>
   (1::nat) < length (players heads_up_preflop) \<and>
   check 1 heads_up_preflop = Inr heads_up_preflop \<and>
   call 1 heads_up_preflop \<noteq> Inr heads_up_preflop"
proof -
  have h0: "(0::nat) < length (players heads_up_preflop)" by (simp add: heads_up_preflop_def)
  have h1: "(1::nat) < length (players heads_up_preflop)" by (simp add: heads_up_preflop_def)
  have c: "currentPlayerIndex heads_up_preflop = 1" by (simp add: heads_up_preflop_def)
  have p0: "players heads_up_preflop ! 0 =
      \<lparr>player_id = 0, name = ''Alice'', chips = 980,
        holeCards = [\<lparr>rank = 2, suit = Hearts\<rparr>, \<lparr>rank = 2, suit = Clubs\<rparr>],
        isActive = True, isFolded = False, isAllIn = False, currentBet = 20,
        totalBetInRound = 20, isAI = False\<rparr>"
    by (simp add: heads_up_preflop_def)
  have p1: "players heads_up_preflop ! 1 =
      \<lparr>player_id = 1, name = ''Bob'', chips = 990,
        holeCards = [\<lparr>rank = 2, suit = Diamonds\<rparr>, \<lparr>rank = 2, suit = Spades\<rparr>],
        isActive = True, isFolded = False, isAllIn = False, currentBet = 10,
        totalBetInRound = 10, isAI = False\<rparr>"
    by (simp add: heads_up_preflop_def)
  have s: "stage heads_up_preflop = PreFlop" "tableCurrentBet heads_up_preflop = 20"
    "lastRaiseAmount heads_up_preflop = 20" "bigBlind heads_up_preflop = 20"
    by (simp_all add: heads_up_preflop_def)
  from actions_absorbed_iff[OF h0, of 40 False] actions_absorbed_iff[OF h0, of 0 False]
    actions_absorbed_iff[OF h1, of 40 False] h0 h1 c
  show ?thesis
    unfolding Let_def p0 p1 s by simp
qed

text \<open>
  C8 as stated fails: before the flop of the heads-up example it is seat 1 to act, and every
  action of seat 0 is applied all the same. Its fold ends the hand.
\<close>

theorem out_of_turn_actions_applied:
  "currentPlayerIndex heads_up_preflop = 1 \<and>
   fold_hand 0 heads_up_preflop \<noteq> Inr heads_up_preflop \<and>
   check 0 heads_up_preflop \<noteq> Inr heads_up_preflop \<and>
   call 0 heads_up_preflop \<noteq> Inr heads_up_preflop \<and>
   bet 0 40 False heads_up_preflop \<noteq> Inr heads_up_preflop \<and>
   allIn 0 heads_up_preflop \<noteq> Inr heads_up_preflop \<and>
   isl (fold_hand 0 heads_up_preflop) = False"
  by code_simp

subsection \<open>Chips move between stacks and the pot only\<close>

lemma players_advanceFrom [simp]: "players (advanceFrom i st) = players st"
  and pot_advanceFrom [simp]: "pot (advanceFrom i st) = pot st"
  and stage_advanceFrom [simp]: "stage (advanceFrom i st) = stage st"
  by (simp_all add: advanceFrom_def Let_def split: option.splits)

lemma chips_resetRoundBets [simp]:
  "map chips (players (resetRoundBets st)) = map chips (players st)"
  and pot_resetRoundBets [simp]: "pot (resetRoundBets st) = pot st"
  by (simp_all add: resetRoundBets_def Let_def comp_def split: option.splits)

lemma chips_dealStreet [simp]:
  "map chips (players (dealStreet n st)) = map chips (players st)"
  and pot_dealStreet [simp]: "pot (dealStreet n st) = pot st"
  by (simp_all add: dealStreet_def Let_def drawMany_def burn_def)

lemma chips_nextStage [simp]:
  "map chips (players (nextStage st)) = map chips (players st)"
  and pot_nextStage [simp]: "pot (nextStage st) = pot st"
  by (simp_all add: nextStage_def addLog_def split: GameStage.splits)

lemma chips_runToShowdown [simp]:
  "map chips (players (runToShowdown st)) = map chips (players st) \<and> pot (runToShowdown st) = pot st"
proof (induction st rule: runToShowdown.induct)
  case (1 st)
  show ?case
  proof (cases "stage st = Showdown")
    case True
    then have "runToShowdown st = st" by (subst runToShowdown.simps) simp
    then show ?thesis by simp
  next
    case False
    then have "runToShowdown st = runToShowdown (nextStage st)"
      by (subst runToShowdown.simps) simp
    then show ?thesis using "1.IH"[OF False] by simp
  qed
qed

lemma chips_postActionHandler:
  "map chips (players (postActionHandler i st)) = map chips (players st) \<and>
   pot (postActionHandler i st) = pot st"
  by (simp add: postActionHandler_def Let_def chips_runToShowdown)

lemma sum_list_update_int:
  "i < length xs \<Longrightarrow> sum_list (xs[i := y]) = sum_list xs - xs ! i + (y :: int)"
  by (induction xs arbitrary: i) (auto split: nat.splits)

lemma noNegativeChips_map: "noNegativeChips st = list_all (\<lambda>c. 0 \<le> c) (map chips (players st))"
  by (simp add: noNegativeChips_def list_all_iff)

lemma elem_le_sum_list:
  "list_all (\<lambda>c. 0 \<le> c) xs \<Longrightarrow> i < length xs \<Longrightarrow> 0 \<le> xs ! i \<and> xs ! i \<le> sum_list (xs :: int list)"
proof (induction xs arbitrary: i)
  case Nil
  then show ?case by simp
next
  case (Cons x xs)
  have nn: "0 \<le> sum_list xs" using Cons.prems(1) by (intro sum_list_nonneg) (simp add: list_all_iff)
  show ?case
  proof (cases i)
    case 0
    then show ?thesis using Cons.prems nn by simp
  next
    case (Suc j)
    then show ?thesis using Cons.IH[of j] Cons.prems by simp
  qed
qed

lemma stack_in_range:
  assumes "exactRange st" and "i < length (players st)"
  shows "0 \<le> chips (players st ! i) \<and> chips (players st ! i) + pot st \<le> 2 ^ 53 \<and> 0 \<le> pot st"
proof -
  have "0 \<le> map chips (players st) ! i \<and> map chips (players st) ! i \<le> totalChips st"
    unfolding totalChips_def using assms
    by (intro elem_le_sum_list) (simp_all add: exactRange_def noNegativeChips_map)
  then show ?thesis using assms by (simp add: exactRange_def)
qed

lemma conserves_same_chips:
  assumes "map chips (players a) = map chips (players b)" and "pot a = pot b"
  shows "conserves i st (Inr a) = conserves i st (Inr b)"
  using assms by (simp add: conserves_def exactRange_def totalChips_def noNegativeChips_map)

lemma conserves_refl:
  assumes "exactRange st" and "i < length (players st)"
  shows "conserves i st (Inr st)"
proof -
  have "(map chips (players st))[i := chips (players st ! i)] = map chips (players st)"
    using assms(2) by (simp add: list_update_same_conv)
  then show ?thesis
    using assms stack_in_range[OF assms] by (simp add: conserves_def)
qed

lemma conserves_postAction [simp]:
  "conserves i st (Inr (postActionHandler k s1)) = conserves i st (Inr s1)"
  by (rule conserves_same_chips) (simp_all add: chips_postActionHandler)

lemma conserves_addLog [simp]:
  "conserves i st (Inr (addLog m s1)) = conserves i st (Inr s1)"
  by (rule conserves_same_chips) (simp_all add: addLog_def)

lemma conserves_raise [simp]:
  "conserves i st (Inr (s1\<lparr>lastRaiseAmount := a, tableCurrentBet := b, lastToActIndex := c\<rparr>))
     = conserves i st (Inr s1)"
  by (rule conserves_same_chips) simp_all

lemma conserves_wager:
  assumes i: "i < length (players st)" and ex: "exactRange st"
    and w: "0 \<le> w" "w \<le> chips (players st ! i)"
    and c: "chips p2 = js_sub (chips (players st ! i)) w"
  shows "conserves i st (Inr (st\<lparr>players := (players st)[i := p2], pot := js_add (pot st) w\<rparr>))"
proof -
  note r = stack_in_range[OF ex i]
  have c': "chips p2 = chips (players st ! i) - w"
    unfolding c using r w by (intro js_sub_exact) simp
  have p': "js_add (pot st) w = pot st + w"
    using r w by (intro js_add_exact) simp
  have m: "map chips ((players st)[i := p2]) = (map chips (players st))[i := chips (players st ! i) - w]"
    by (simp add: map_update c')
  have t: "sum_list ((map chips (players st))[i := chips (players st ! i) - w]) = totalChips st - w"
    using i by (simp add: sum_list_update_int totalChips_def)
  have "list_all (\<lambda>c. 0 \<le> c) (map chips (players st))"
    using ex by (simp add: exactRange_def noNegativeChips_map)
  moreover have "set ((map chips (players st))[i := chips (players st ! i) - w])
      \<subseteq> insert (chips (players st ! i) - w) (set (map chips (players st)))"
    by (rule set_update_subset_insert)
  ultimately have nn: "list_all (\<lambda>c. 0 \<le> c) ((map chips (players st))[i := chips (players st ! i) - w])"
    using w unfolding list_all_iff by auto
  have e: "exactRange (st\<lparr>players := (players st)[i := p2], pot := js_add (pot st) w\<rparr>)"
    using ex r w nn t by (simp add: exactRange_def noNegativeChips_map totalChips_def m p')
  show ?thesis
    using e w t by (simp add: conserves_def Let_def p' m totalChips_def)
qed

lemma check_conserves:
  "playerId < length (players st) \<Longrightarrow> exactRange st \<Longrightarrow> conserves playerId st (check playerId st)"
  by (simp add: check_def nth_opt_def conserves_refl)

lemma call_conserves:
  "playerId < length (players st) \<Longrightarrow> exactRange st \<Longrightarrow> conserves playerId st (call playerId st)"
  by (auto simp: call_def nth_opt_def Let_def conserves_refl check_conserves
      intro!: conserves_wager)

lemma bet_conserves:
  "playerId < length (players st) \<Longrightarrow> exactRange st \<Longrightarrow>
   conserves playerId st (bet playerId amt skipPost st)"
  by (auto simp: bet_def nth_opt_def Let_def conserves_refl call_conserves
      intro!: conserves_wager)

lemma postBlind_conserves:
  "idx < length (players st) \<Longrightarrow> exactRange st \<Longrightarrow> 0 \<le> amt \<Longrightarrow>
   conserves idx st (postBlind idx amt st)"
  using stack_in_range[of st idx]
  by (auto simp: postBlind_def nth_opt_def Let_def intro!: conserves_wager)

lemma conserves_from_addLog [simp]: "conserves i (addLog m st) r = conserves i st r"
  by (cases r) (simp_all add: conserves_def addLog_def totalChips_def)

lemma exactRange_addLog [simp]: "exactRange (addLog m st) = exactRange st"
  by (simp add: exactRange_def addLog_def totalChips_def noNegativeChips_def)

lemma chips_mark_allIn:
  "map chips (ps[i := (ps ! i)\<lparr>isAllIn := True\<rparr>]) = map chips ps"
proof (cases "i < length ps")
  case True
  then have "(map chips ps)[i := map chips ps ! i] = map chips ps" by (simp only: list_update_id)
  then show ?thesis using True by (simp add: map_update)
next
  case False
  then have "ps[i := (ps ! i)\<lparr>isAllIn := True\<rparr>] = ps" by (simp add: list_update_beyond)
  then show ?thesis by simp
qed

lemma allIn_conserves:
  assumes i: "playerId < length (players st)" and ex: "exactRange st"
  shows "conserves playerId st (allIn playerId st)"
proof -
  define player where "player = players st ! playerId"
  define st1 where "st1 = addLog (name player @ '' goes all-in ('' @ show_int (chips player) @ '')'') st"
  have i1: "playerId < length (players st1)" using i by (simp add: st1_def addLog_def)
  have ex1: "exactRange st1" using ex by (simp add: st1_def)
  have b: "conserves playerId st (bet playerId (chips player) False st1)"
    using bet_conserves[OF i1 ex1, of "chips player" False] by (simp add: st1_def)
  show ?thesis
  proof (cases "isFolded player \<or> isAllIn player \<or> stage st = Showdown \<or> chips player \<le> 0")
    case True
    then show ?thesis using i ex by (simp add: allIn_def nth_opt_def player_def conserves_refl)
  next
    case False
    from b obtain st2 where r: "bet playerId (chips player) False st1 = Inr st2"
      and c: "conserves playerId st (Inr st2)"
      by (cases "bet playerId (chips player) False st1") (simp_all add: conserves_def)
    have "allIn playerId st =
        Inr (st2\<lparr>players := (players st2)[playerId := (players st2 ! playerId)\<lparr>isAllIn := True\<rparr>]\<rparr>)"
      using i False r by (simp add: allIn_def nth_opt_def player_def st1_def)
    moreover have "conserves playerId st
        (Inr (st2\<lparr>players := (players st2)[playerId := (players st2 ! playerId)\<lparr>isAllIn := True\<rparr>]\<rparr>))
        = conserves playerId st (Inr st2)"
      by (rule conserves_same_chips) (simp_all add: chips_mark_allIn)
    ultimately show ?thesis using c by simp
  qed
qed

text \<open>
  C9, as the engine has it. On a table in the exact range (no stack and no pot below zero,
  at most \<open>2^53\<close> chips in the stacks and the pot together), \<^verbatim>\<open>bet\<close>, \<^verbatim>\<open>call\<close>, \<^verbatim>\<open>allIn\<close> and
  the posting of a blind that is not negative conserve the chips: the pot grows by an amount
  between zero and the player's stack, the player's stack shrinks by that amount, the other
  stacks stay, so that the stacks and the pot add up to what they were; no stack is below
  zero afterwards and the table is still in the exact range.
\<close>

theorem wagers_conserve_chips:
  assumes "playerId < length (players st)" and "exactRange st"
  shows "conserves playerId st (bet playerId amt skipPost st) \<and>
         conserves playerId st (call playerId st) \<and>
         conserves playerId st (allIn playerId st) \<and>
         (0 \<le> blind \<longrightarrow> conserves playerId st (postBlind playerId blind st))"
  using assms by (simp add: bet_conserves call_conserves allIn_conserves postBlind_conserves)

theorem wagers_conserve_chips_witness:
  "(1::nat) < length (players heads_up_preflop) \<and> exactRange heads_up_preflop \<and>
   conserves 1 heads_up_preflop (bet 1 60 False heads_up_preflop) \<and>
   conserves 1 heads_up_preflop (call 1 heads_up_preflop) \<and>
   conserves 1 heads_up_preflop (allIn 1 heads_up_preflop) \<and>
   (0::int) \<le> 60 \<and> conserves 1 heads_up_preflop (postBlind 1 60 heads_up_preflop) \<and>
   map_sum id (\<lambda>s. (map chips (players s), pot s)) (bet 1 60 False heads_up_preflop) = Inr ([980, 930], 90) \<and>
   map_sum id (\<lambda>s. (map chips (players s), pot s)) (allIn 1 heads_up_preflop) = Inr ([980, 0], 1020)"
proof -
  have h: "(1::nat) < length (players heads_up_preflop)" by (simp add: heads_up_preflop_def)
  have e: "exactRange heads_up_preflop"
    by (simp add: exactRange_def noNegativeChips_def totalChips_def heads_up_preflop_def)
  have a: "map_sum id (\<lambda>s. (map chips (players s), pot s)) (bet 1 60 False heads_up_preflop) = Inr ([980, 930], 90)"
    by code_simp
  have b: "map_sum id (\<lambda>s. (map chips (players s), pot s)) (allIn 1 heads_up_preflop) = Inr ([980, 0], 1020)"
    by code_simp
  from wagers_conserve_chips[OF h e, of 60 False 60] h e a b show ?thesis by simp
qed

text \<open>
  C9 as stated fails above the exact range. With \<open>2^53\<close> chips in the pot of the heads-up
  example, a bet of 61 takes 61 chips from the stack of seat 1, and the pot, which cannot
  hold \<open>2^53 + 61\<close>, becomes \<open>2^53 + 60\<close>: a chip is lost.
\<close>

theorem rounded_pot_loses_a_chip_counterexample:
  "map chips (players deep_pot_table) = [980, 990] \<and> pot deep_pot_table = 2 ^ 53 \<and>
   totalChips deep_pot_table + pot deep_pot_table = 2 ^ 53 + 1970 \<and>
   map_sum id (\<lambda>s. (map chips (players s), pot s, totalChips s + pot s)) (bet 1 61 False deep_pot_table)
     = Inr ([980, 929], 2 ^ 53 + 60, 2 ^ 53 + 1969) \<and>
   \<not> conserves 1 deep_pot_table (bet 1 61 False deep_pot_table)"
proof -
  have a: "map chips (players deep_pot_table) = [980, 990] \<and> pot deep_pot_table = 2 ^ 53"
    by (simp add: deep_pot_table_def heads_up_preflop_def)
  then have t: "totalChips deep_pot_table + pot deep_pot_table = 2 ^ 53 + 1970"
    by (simp add: totalChips_def)
  have b: "map_sum id (\<lambda>s. (map chips (players s), pot s, totalChips s + pot s)) (bet 1 61 False deep_pot_table)
     = Inr ([980, 929], 2 ^ 53 + 60, 2 ^ 53 + 1969)"
    by code_simp
  then obtain s where s: "bet 1 61 False deep_pot_table = Inr s"
      "totalChips s + pot s = 2 ^ 53 + 1969"
    by (cases "bet 1 61 False deep_pot_table") auto
  have "\<not> conserves 1 deep_pot_table (bet 1 61 False deep_pot_table)"
    unfolding s(1) using s(2) t by (simp add: conserves_def Let_def)
  then show ?thesis using a t b by simp
qed

subsection \<open>The next seated player\<close>

lemma residue_reached:
  fixes n k start :: nat
  assumes "k < n"
  shows "\<exists>off. 1 \<le> off \<and> off \<le> n \<and> (start + off) mod n = k \<and> (start < n \<longrightarrow> k \<noteq> start \<longrightarrow> off < n)"
proof -
  define s where "s = start mod n"
  have n0: "0 < n" using assms by arith
  have sn: "s < n" using n0 by (simp add: s_def)
  show ?thesis
  proof (cases "s < k")
    case True
    have "(start + (k - s)) mod n = (s + (k - s)) mod n"
      unfolding s_def by (simp add: mod_add_left_eq)
    also have "\<dots> = k" using True assms by simp
    finally show ?thesis using True assms by (intro exI[of _ "k - s"]) auto
  next
    case False
    have "(start + (n + k - s)) mod n = (s + (n + k - s)) mod n"
      unfolding s_def by (simp add: mod_add_left_eq)
    also have "\<dots> = (n + k) mod n" using sn by simp
    also have "\<dots> = k" using assms by simp
    finally have e: "(start + (n + k - s)) mod n = k" .
    have "start < n \<Longrightarrow> k \<noteq> start \<Longrightarrow> n + k - s < n"
      using False by (simp add: s_def)
    then show ?thesis using e False sn assms by (intro exI[of _ "n + k - s"]) auto
  qed
qed

lemma full_turn_only:
  fixes n a off :: nat
  assumes "a < n" and "1 \<le> off" and "off \<le> n" and "(a + off) mod n = a"
  shows "off = n"
proof (rule ccontr)
  assume "off \<noteq> n"
  then have lt: "off < n" using assms(3) by arith
  show False
  proof (cases "a + off < n")
    case True
    then show ?thesis using assms by simp
  next
    case False
    then have "(a + off) mod n = a + off - n"
      using assms(1) lt by (simp add: mod_if)
    then show ?thesis using assms lt False by simp
  qed
qed

lemma cyclic_find:
  fixes n b start :: nat
  assumes "b < n" and "P b"
  shows "\<exists>idx. find P (map (\<lambda>off. (start + off) mod n) [1..<n + 1]) = Some idx \<and> idx < n \<and> P idx \<and>
               (start < n \<longrightarrow> b \<noteq> start \<longrightarrow> idx \<noteq> start)"
proof -
  let ?L = "map (\<lambda>off. (start + off) mod n) [1..<n + 1]"
  have n0: "0 < n" using assms(1) by simp
  obtain off where off: "1 \<le> off" "off \<le> n" "(start + off) mod n = b"
      "start < n \<longrightarrow> b \<noteq> start \<longrightarrow> off < n"
    using residue_reached[OF assms(1), of start] by blast
  have lenL: "length ?L = n" by (simp del: upt_Suc)
  have nthL: "?L ! j = (start + (1 + j)) mod n" if "j < n" for j
    using that by (simp del: upt_Suc)
  have bL: "?L ! (off - 1) = b" using off nthL[of "off - 1"] by simp
  have "off - 1 < n" using off(1,2) by arith
  then have "off - 1 < length ?L" by (simp only: lenL)
  then have "?L ! (off - 1) \<in> set ?L" by (rule nth_mem)
  then have "b \<in> set ?L" by (simp only: bL)
  then have "find P ?L \<noteq> None" using assms(2) by (auto simp: find_None_iff)
  then obtain idx where f: "find P ?L = Some idx" by auto
  then obtain i where i: "i < length ?L" "P (?L ! i)" "idx = ?L ! i" "\<forall>j<i. \<not> P (?L ! j)"
    unfolding find_Some_iff by blast
  have idxn: "idx < n" using i(1,3) n0 nthL[of i] lenL by simp
  have ne: "idx \<noteq> start" if "start < n" "b \<noteq> start"
  proof
    assume e: "idx = start"
    have li: "?L ! i = (start + (1 + i)) mod n" using i(1) nthL[of i] lenL by simp
    have "1 + i = n"
    proof (rule full_turn_only[OF that(1)])
      show "1 \<le> 1 + i" by simp
      show "1 + i \<le> n" using i(1) lenL by simp
      show "(start + (1 + i)) mod n = start" using li e i(3) by simp
    qed
    moreover have "off < n" using off(4) that by simp
    ultimately have "off - 1 < i" using off(1) by simp
    then have "\<not> P (?L ! (off - 1))" using i(4) by blast
    then show False using bL assms(2) by simp
  qed
  show ?thesis using f idxn i(2,3) ne by blast
qed

lemma nextIdx_seated:
  assumes "b < length ps" and "seated (ps ! b)"
  shows "nextIdx ps start < length ps \<and> seated (ps ! nextIdx ps start) \<and>
         (start < length ps \<longrightarrow> b \<noteq> start \<longrightarrow> nextIdx ps start \<noteq> start)"
proof -
  obtain idx where "find (\<lambda>idx. seated (ps ! idx)) (map (\<lambda>off. (start + off) mod length ps) [1..<length ps + 1]) = Some idx"
    "idx < length ps" "seated (ps ! idx)" "start < length ps \<longrightarrow> b \<noteq> start \<longrightarrow> idx \<noteq> start"
    using cyclic_find[of b "length ps" "\<lambda>idx. seated (ps ! idx)" start] assms by blast
  then show ?thesis by (simp only: nextIdx_def Let_def option.case simp_thms)
qed

lemma nextIdx_cong:
  assumes "length ps' = length ps"
    and "\<And>k. k < length ps \<Longrightarrow> seated (ps' ! k) = seated (ps ! k)"
  shows "nextIdx ps' start = nextIdx ps start"
proof -
  have "find (\<lambda>idx. seated (ps' ! idx)) (map (\<lambda>off. (start + off) mod length ps) [1..<length ps + 1])
      = find (\<lambda>idx. seated (ps ! idx)) (map (\<lambda>off. (start + off) mod length ps) [1..<length ps + 1])"
  proof (cases "length ps = 0")
    case True
    then show ?thesis by simp
  next
    case False
    show ?thesis
    proof (rule find_cong)
      show "map (\<lambda>off. (start + off) mod length ps) [1..<length ps + 1]
          = map (\<lambda>off. (start + off) mod length ps) [1..<length ps + 1]" by (rule refl)
      fix x assume "x \<in> set (map (\<lambda>off. (start + off) mod length ps) [1..<length ps + 1])"
      then have "x < length ps" using False by (auto simp del: upt_Suc)
      then show "seated (ps' ! x) = seated (ps ! x)" by (rule assms(2))
    qed
  qed
  then show ?thesis using assms(1) by (simp only: nextIdx_def Let_def)
qed

lemma filter_two_indices:
  assumes "length (filter P xs) = 2"
  shows "\<exists>a b. a < length xs \<and> b < length xs \<and> a \<noteq> b \<and> P (xs ! a) \<and> P (xs ! b) \<and>
               (\<forall>k<length xs. P (xs ! k) \<longrightarrow> k = a \<or> k = b)"
proof -
  have "card {i. i < length xs \<and> P (xs ! i)} = 2"
    using assms by (simp add: length_filter_conv_card)
  then obtain a b where ab: "{i. i < length xs \<and> P (xs ! i)} = {a, b}" "a \<noteq> b"
    by (auto simp: card_2_iff)
  then have "a \<in> {i. i < length xs \<and> P (xs ! i)}" "b \<in> {i. i < length xs \<and> P (xs ! i)}"
    by auto
  moreover have "\<forall>k<length xs. P (xs ! k) \<longrightarrow> k = a \<or> k = b"
    using ab(1) by auto
  ultimately show ?thesis using ab(2) by blast
qed

lemma filter_some_index:
  assumes "0 < length (filter P xs)"
  shows "\<exists>b < length xs. P (xs ! b)"
proof -
  from assms obtain x where "x \<in> set (filter P xs)" by (cases "filter P xs") auto
  then show ?thesis by (auto simp: in_set_conv_nth)
qed

subsection \<open>Dealing the hole cards\<close>

lemma dealtTo_0: "dealtTo 0 st = st"
  by (simp add: dealtTo_def map_nth)

lemma length_players_dealtTo [simp]: "length (players (dealtTo m st)) = length (players st)"
  by (simp add: dealtTo_def)

lemma dealOne_dealtTo:
  assumes "m < length (players st)"
  shows "dealOne m (dealtTo m st) = dealtTo (Suc m) st"
proof -
  have "(map (\<lambda>k. if k < m
                  then (players st ! k)\<lparr>holeCards := holeCards (players st ! k) @ take 1 (drop k (deck st))\<rparr>
                  else players st ! k) [0..<length (players st)])
          [m := (players st ! m)\<lparr>holeCards := holeCards (players st ! m) @ take 1 (drop m (deck st))\<rparr>]
      = map (\<lambda>k. if k < Suc m
                  then (players st ! k)\<lparr>holeCards := holeCards (players st ! k) @ take 1 (drop k (deck st))\<rparr>
                  else players st ! k) [0..<length (players st)]"
    by (rule nth_equalityI) (auto simp: nth_list_update less_Suc_eq)
  then show ?thesis
    using assms by (simp add: dealOne_def dealtTo_def drawMany_def Let_def)
qed

lemma fold_dealOne:
  "m \<le> length (players st) \<Longrightarrow> fold dealOne [0..<m] st = dealtTo m st"
proof (induction m)
  case 0
  then show ?case by (simp add: dealtTo_0)
next
  case (Suc m)
  then show ?case by (simp add: dealOne_dealtTo)
qed

lemma dealRound_eq: "dealRound st = dealtTo (length (players st)) st"
  by (simp add: dealRound_def fold_dealOne)

lemma dealHoleCards_eq:
  "dealHoleCards st =
     st\<lparr>deck := drop (2 * length (players st)) (deck st),
        players := map (\<lambda>k. (players st ! k)\<lparr>holeCards := holeCards (players st ! k)
                                @ take 1 (drop k (deck st))
                                @ take 1 (drop (length (players st) + k) (deck st))\<rparr>)
                     [0..<length (players st)]\<rparr>"
proof -
  have "map (\<lambda>k. if k < length (players st)
              then (players (dealtTo (length (players st)) st) ! k)
                     \<lparr>holeCards := holeCards (players (dealtTo (length (players st)) st) ! k)
                        @ take 1 (drop k (deck (dealtTo (length (players st)) st)))\<rparr>
              else players (dealtTo (length (players st)) st) ! k) [0..<length (players st)]
      = map (\<lambda>k. (players st ! k)\<lparr>holeCards := holeCards (players st ! k)
                                @ take 1 (drop k (deck st))
                                @ take 1 (drop (length (players st) + k) (deck st))\<rparr>)
                     [0..<length (players st)]"
    by (rule nth_equalityI) (auto simp: dealtTo_def add.commute)
  then show ?thesis
    by (simp add: dealHoleCards_def dealRound_eq)
       (simp add: dealtTo_def mult_2)
qed

subsection \<open>Starting a hand\<close>

lemma postBlind_eq:
  assumes "idx < length (players st)"
  shows "postBlind idx amt st =
     Inr (st\<lparr>players := (players st)[idx :=
                (if js_sub (chips (players st ! idx)) (min amt (chips (players st ! idx))) = 0
                 then (players st ! idx)\<lparr>chips := js_sub (chips (players st ! idx)) (min amt (chips (players st ! idx))),
                        currentBet := js_add (currentBet (players st ! idx)) (min amt (chips (players st ! idx))),
                        totalBetInRound := js_add (totalBetInRound (players st ! idx)) (min amt (chips (players st ! idx))),
                        isAllIn := True\<rparr>
                 else (players st ! idx)\<lparr>chips := js_sub (chips (players st ! idx)) (min amt (chips (players st ! idx))),
                        currentBet := js_add (currentBet (players st ! idx)) (min amt (chips (players st ! idx))),
                        totalBetInRound := js_add (totalBetInRound (players st ! idx)) (min amt (chips (players st ! idx)))\<rparr>)],
             pot := js_add (pot st) (min amt (chips (players st ! idx)))\<rparr>)"
  using assms by (simp add: postBlind_def nth_opt_def Let_def)

text \<open>
  The state from which the blinds are posted: seats assigned, the hand reset, the deck in
  place and two rounds of hole cards dealt.
\<close>

lemma start_trace:
  fixes st :: GameState and freshDeck :: "Card list" and externalDeck :: "Card list option"
  assumes two: "2 \<le> length (filter seated (players st))"
  defines "cnt \<equiv> length (filter seated (players st))"
  defines "n \<equiv> length (players st)"
  defines "d \<equiv> nextIdx (players st) (dealerPosition st)"
  defines "sb \<equiv> (if cnt = 2 then d else nextIdx (players st) d)"
  defines "bb \<equiv> nextIdx (players st) sb"
  defines "cards \<equiv> (case externalDeck of Some c \<Rightarrow> c | None \<Rightarrow> freshDeck)"
  shows "\<exists>st4 st5 st6.
      postBlind sb (smallBlind st) st4 = Inr st5 \<and>
      postBlind bb (bigBlind st) st5 = Inr st6 \<and>
      startNewHandInternal freshDeck externalDeck st =
        Inr (st6\<lparr>tableCurrentBet := currentBet (players st6 ! bb),
                 currentPlayerIndex := nextIdx (players st6) bb,
                 lastToActIndex := bb, lastRaiseAmount := bigBlind st\<rparr>) \<and>
      d < n \<and> sb < n \<and> bb < n \<and> seated (players st ! d) \<and> seated (players st ! sb) \<and>
      seated (players st ! bb) \<and>
      length (players st4) = n \<and> deck st4 = drop (2 * n) cards \<and> pot st4 = 0 \<and> stage st4 = PreFlop \<and>
      dealerPosition st4 = d \<and> smallBlindPosition st4 = sb \<and> bigBlindPosition st4 = bb \<and>
      (\<forall>k<n. players st4 ! k =
         (players st ! k)\<lparr>holeCards := take 1 (drop k cards) @ take 1 (drop (n + k) cards),
            isFolded := False, isAllIn := False, currentBet := 0, totalBetInRound := 0\<rparr>)"
proof -
  have "0 < length (filter seated (players st))" using two by arith
  then obtain b where b: "b < length (players st)" "seated (players st ! b)"
    using filter_some_index[of seated "players st"] by blast
  have d: "d < n \<and> seated (players st ! d)"
    unfolding d_def n_def using nextIdx_seated[OF b] by blast
  have sb: "sb < n \<and> seated (players st ! sb)"
    unfolding sb_def using d nextIdx_seated[OF b, of d] by (simp add: n_def)
  have bb: "bb < n \<and> seated (players st ! bb)"
    unfolding bb_def n_def using nextIdx_seated[OF b] by blast
  define st1 where "st1 = assignPositions cnt st"
  have st1: "players st1 = players st" "dealerPosition st1 = d" "smallBlindPosition st1 = sb"
    "bigBlindPosition st1 = bb" "smallBlind st1 = smallBlind st" "bigBlind st1 = bigBlind st"
    by (simp_all add: st1_def assignPositions_def Let_def d_def sb_def bb_def)
  define st3 where "st3 = (resetForNewHand st1)\<lparr>deck := cards\<rparr>"
  have st3: "players st3 = map (\<lambda>p. p\<lparr>holeCards := [], isFolded := False, isAllIn := False,
        currentBet := 0, totalBetInRound := 0\<rparr>) (players st)"
    "deck st3 = cards" "pot st3 = 0" "stage st3 = PreFlop"
    "dealerPosition st3 = d" "smallBlindPosition st3 = sb" "bigBlindPosition st3 = bb"
    "smallBlind st3 = smallBlind st" "bigBlind st3 = bigBlind st"
    by (simp_all add: st3_def resetForNewHand_def Let_def addLog_def st1)
  define st4 where "st4 = dealHoleCards st3"
  have l3: "length (players st3) = n" by (simp add: st3 n_def)
  have st4: "length (players st4) = n" "deck st4 = drop (2 * n) cards" "pot st4 = 0"
    "stage st4 = PreFlop" "dealerPosition st4 = d" "smallBlindPosition st4 = sb"
    "bigBlindPosition st4 = bb" "smallBlind st4 = smallBlind st" "bigBlind st4 = bigBlind st"
    unfolding st4_def by (subst dealHoleCards_eq, simp add: l3 st3(2-))+
  have p4: "players st4 ! k =
         (players st ! k)\<lparr>holeCards := take 1 (drop k cards) @ take 1 (drop (n + k) cards),
            isFolded := False, isAllIn := False, currentBet := 0, totalBetInRound := 0\<rparr>"
    if "k < n" for k
    unfolding st4_def using that
    by (subst dealHoleCards_eq) (simp add: l3 st3(2-), simp add: st3(1) n_def)
  obtain st5 where st5: "postBlind sb (smallBlind st) st4 = Inr st5" "length (players st5) = n"
      "bigBlindPosition st5 = bb" "bigBlind st5 = bigBlind st"
    using postBlind_eq[of sb st4 "smallBlind st"] sb st4 by simp
  obtain st6 where st6: "postBlind bb (bigBlind st) st5 = Inr st6" "length (players st6) = n"
      "bigBlindPosition st6 = bb" "bigBlind st6 = bigBlind st"
    using postBlind_eq[of bb st5 "bigBlind st"] bb st5 by simp
  have fin: "firstActionParams st6 =
      Inr (st6\<lparr>tableCurrentBet := currentBet (players st6 ! bb),
                 currentPlayerIndex := nextIdx (players st6) bb,
                 lastToActIndex := bb, lastRaiseAmount := bigBlind st\<rparr>)"
    using bb st6 by (simp add: firstActionParams_def nth_opt_def)
  have "startNewHandInternal freshDeck externalDeck st = firstActionParams st6"
    using two st5(1) st6(1)
    by (simp add: startNewHandInternal_def Let_def cnt_def[symmetric] st1_def[symmetric]
        cards_def[symmetric] st3_def[symmetric] st4_def[symmetric] st4 st5 st6)
  then have res: "startNewHandInternal freshDeck externalDeck st =
      Inr (st6\<lparr>tableCurrentBet := currentBet (players st6 ! bb),
                 currentPlayerIndex := nextIdx (players st6) bb,
                 lastToActIndex := bb, lastRaiseAmount := bigBlind st\<rparr>)"
    using fin by simp
  show ?thesis
    apply (rule exI[of _ st4], rule exI[of _ st5], rule exI[of _ st6])
    using res st5(1) st6(1) d sb bb st4(1-7) p4 by simp
qed

lemma start_heads_up:
  "startNewHandInternal [] (Some ordered_deck) heads_up_table = Inr heads_up_preflop"
  by code_simp

lemma heads_up_table_seated:
  "filter seated (players heads_up_table) = players heads_up_table \<and>
   map chips (players heads_up_table) = [1000, 1000] \<and> length (players heads_up_table) = 2 \<and>
   smallBlind heads_up_table = 10 \<and> bigBlind heads_up_table = 20"
  by code_simp

text \<open>
  C7. With exactly two players that are active and have chips, each with 1000, and blinds of
  10 and 20, a new hand starts with the dealer as the small blind: the dealer's current bet
  is 10, the other player's is 20, the pot is 30 and the dealer is the first to act.
\<close>

theorem heads_up_blinds:
  assumes two: "length (filter seated (players st)) = 2"
    and stacks: "\<forall>p\<in>set (players st). seated p \<longrightarrow> chips p = 1000"
    and sbl: "smallBlind st = 10" and bbl: "bigBlind st = 20"
  shows "\<exists>st'. startNewHandInternal freshDeck externalDeck st = Inr st' \<and>
           dealerPosition st' < length (players st') \<and>
           bigBlindPosition st' < length (players st') \<and>
           dealerPosition st' \<noteq> bigBlindPosition st' \<and>
           seated (players st ! dealerPosition st') \<and>
           seated (players st ! bigBlindPosition st') \<and>
           smallBlindPosition st' = dealerPosition st' \<and>
           currentBet (players st' ! dealerPosition st') = 10 \<and>
           currentBet (players st' ! bigBlindPosition st') = 20 \<and>
           pot st' = 30 \<and> currentPlayerIndex st' = dealerPosition st'"
proof -
  define ps where "ps = players st"
  define n where "n = length ps"
  define d where "d = nextIdx ps (dealerPosition st)"
  define bb where "bb = nextIdx ps d"
  have two': "2 \<le> length (filter seated (players st))" using two by simp
  obtain st4 st5 st6 where
    b1: "postBlind d (smallBlind st) st4 = Inr st5" and
    b2: "postBlind bb (bigBlind st) st5 = Inr st6" and
    res: "startNewHandInternal freshDeck externalDeck st =
        Inr (st6\<lparr>tableCurrentBet := currentBet (players st6 ! bb),
                 currentPlayerIndex := nextIdx (players st6) bb,
                 lastToActIndex := bb, lastRaiseAmount := bigBlind st\<rparr>)" and
    dn: "d < n" and bn: "bb < n" and sd: "seated (ps ! d)" and sbb: "seated (ps ! bb)" and
    l4: "length (players st4) = n" and pot4: "pot st4 = 0" and
    pos4: "dealerPosition st4 = d" "smallBlindPosition st4 = d" "bigBlindPosition st4 = bb" and
    p4: "\<forall>k<n. players st4 ! k =
         (ps ! k)\<lparr>holeCards := take 1 (drop k (case externalDeck of Some c \<Rightarrow> c | None \<Rightarrow> freshDeck))
                      @ take 1 (drop (n + k) (case externalDeck of Some c \<Rightarrow> c | None \<Rightarrow> freshDeck)),
            isFolded := False, isAllIn := False, currentBet := 0, totalBetInRound := 0\<rparr>"
    using start_trace[OF two', of freshDeck externalDeck] two
    unfolding ps_def n_def d_def bb_def by auto
  obtain a b where ab: "a < n" "b < n" "a \<noteq> b" "seated (ps ! a)" "seated (ps ! b)"
      "\<forall>k<n. seated (ps ! k) \<longrightarrow> k = a \<or> k = b"
    using filter_two_indices[OF two] unfolding ps_def n_def by blast
  have other: "\<exists>q<n. seated (ps ! q) \<and> q \<noteq> k" for k
    using ab by (cases "k = a") auto
  have dbb: "bb \<noteq> d"
  proof -
    obtain q where q: "q < n" "seated (ps ! q)" "q \<noteq> d" using other[of d] by blast
    show ?thesis unfolding bb_def using nextIdx_seated[of q ps d] q dn by (simp add: n_def)
  qed
  have rtn: "nextIdx ps bb = d"
  proof -
    have "nextIdx ps bb < n \<and> seated (ps ! nextIdx ps bb) \<and> nextIdx ps bb \<noteq> bb"
      using nextIdx_seated[of d ps bb] dn sd bn dbb by (simp add: n_def)
    then show ?thesis using ab(6) dn sd bn sbb dbb by metis
  qed
  have ar: "js_sub 1000 10 = 990" "js_add 0 10 = 10" "js_sub 1000 20 = 980" "js_add 0 20 = 20"
      "js_add 10 20 = 30"
    by (simp_all add: js_sub_def js_add_def fl_def)
  have cd: "chips (ps ! d) = 1000" using stacks sd dn by (simp add: ps_def n_def)
  have cb: "chips (ps ! bb) = 1000" using stacks sbb bn by (simp add: ps_def n_def)
  have st5: "st5 = st4\<lparr>players := (players st4)[d := (players st4 ! d)\<lparr>chips := 990, currentBet := 10,
         totalBetInRound := 10\<rparr>], pot := 10\<rparr>"
    using b1 postBlind_eq[of d st4 "smallBlind st"] dn l4 p4 cd sbl pot4
    by (simp add: ar)
  have l5: "length (players st5) = n" by (simp add: st5 l4)
  have p5bb: "players st5 ! bb = players st4 ! bb" using dbb by (simp add: st5)
  have st6: "st6 = st5\<lparr>players := (players st5)[bb := (players st4 ! bb)\<lparr>chips := 980, currentBet := 20,
         totalBetInRound := 20\<rparr>], pot := 30\<rparr>"
    using b2 postBlind_eq[of bb st5 "bigBlind st"] bn l5 p5bb p4 cb bbl
    by (simp add: st5 ar)
  have l6: "length (players st6) = n" by (simp add: st6 l5)
  have p6d: "currentBet (players st6 ! d) = 10"
    using dbb dn l4 by (simp add: st6 st5)
  have p6b: "currentBet (players st6 ! bb) = 20"
    using bn l4 by (simp add: st6 st5)
  have f4: "chips (players st4 ! k) = chips (ps ! k) \<and> isActive (players st4 ! k) = isActive (ps ! k)"
    if "k < n" for k using that p4 by simp
  have seat6: "seated (players st6 ! k) = seated (ps ! k)" if "k < n" for k
  proof (cases "k = bb")
    case True
    then show ?thesis using bn l4 sbb f4[OF bn] by (simp add: st6 st5)
  next
    case nb: False
    show ?thesis
    proof (cases "k = d")
      case True
      then show ?thesis using dn l4 sd f4[OF dn] nb by (simp add: st6 st5)
    next
      case False
      then show ?thesis using nb f4[OF that] by (simp add: st6 st5)
    qed
  qed
  have "nextIdx (players st6) bb = nextIdx ps bb"
    by (rule nextIdx_cong) (simp_all add: l6 n_def[symmetric] seat6)
  then have cur: "nextIdx (players st6) bb = d" using rtn by simp
  have pos6: "dealerPosition st6 = d" "smallBlindPosition st6 = d" "bigBlindPosition st6 = bb" "pot st6 = 30"
    by (simp_all add: st6 st5 pos4)
  show ?thesis
    unfolding res
    using dn bn dbb sd sbb p6d p6b cur pos6 l6
    by (simp add: ps_def[symmetric])
qed

theorem heads_up_blinds_witness:
  "length (filter seated (players heads_up_table)) = 2 \<and>
   map chips (filter seated (players heads_up_table)) = [1000, 1000] \<and>
   smallBlind heads_up_table = 10 \<and> bigBlind heads_up_table = 20 \<and>
   (\<exists>st'. startNewHandInternal [] (Some ordered_deck) heads_up_table = Inr st' \<and>
           dealerPosition st' < length (players st') \<and>
           bigBlindPosition st' < length (players st') \<and>
           dealerPosition st' \<noteq> bigBlindPosition st' \<and>
           seated (players heads_up_table ! dealerPosition st') \<and>
           seated (players heads_up_table ! bigBlindPosition st') \<and>
           smallBlindPosition st' = dealerPosition st' \<and>
           currentBet (players st' ! dealerPosition st') = 10 \<and>
           currentBet (players st' ! bigBlindPosition st') = 20 \<and>
           pot st' = 30 \<and> currentPlayerIndex st' = dealerPosition st')"
proof -
  have h1: "length (filter seated (players heads_up_table)) = 2"
    using heads_up_table_seated by simp
  have c: "map chips (filter seated (players heads_up_table)) = [1000, 1000]"
    using heads_up_table_seated by simp
  have h2: "\<forall>p\<in>set (players heads_up_table). seated p \<longrightarrow> chips p = 1000"
  proof
    fix p assume "p \<in> set (players heads_up_table)"
    then have "chips p \<in> set (map chips (players heads_up_table))" by simp
    then show "seated p \<longrightarrow> chips p = 1000" using heads_up_table_seated by simp
  qed
  have h3: "smallBlind heads_up_table = 10" and h4: "bigBlind heads_up_table = 20"
    using heads_up_table_seated by simp_all
  from heads_up_blinds[OF h1 h2 h3 h4, of "[]" "Some ordered_deck"] h1 c h3 h4
  show ?thesis by blast
qed

subsection \<open>A hand from a packed deck\<close>

lemma startNewHandInternal_Inr: "\<not> isl (startNewHandInternal freshDeck externalDeck st)"
proof (cases "2 \<le> length (filter seated (players st))")
  case True
  from start_trace[OF True, of freshDeck externalDeck] show ?thesis by auto
next
  case False
  then show ?thesis by (simp add: startNewHandInternal_def Let_def)
qed

lemma startNewHandInternal_deals:
  assumes "2 \<le> length (filter seated (players st))"
  shows "\<exists>st'. startNewHandInternal freshDeck (Some cards) st = Inr st' \<and> stage st' = PreFlop \<and>
           length (players st') = length (players st) \<and>
           deck st' = drop (2 * length (players st)) cards \<and>
           (\<forall>k<length (players st). holeCards (players st' ! k) =
               take 1 (drop k cards) @ take 1 (drop (length (players st) + k) cards))"
proof -
  define n where "n = length (players st)"
  obtain st4 st5 st6 sb bb where
    b1: "postBlind sb (smallBlind st) st4 = Inr st5" and
    b2: "postBlind bb (bigBlind st) st5 = Inr st6" and
    res: "startNewHandInternal freshDeck (Some cards) st =
        Inr (st6\<lparr>tableCurrentBet := currentBet (players st6 ! bb),
                 currentPlayerIndex := nextIdx (players st6) bb,
                 lastToActIndex := bb, lastRaiseAmount := bigBlind st\<rparr>)" and
    sn: "sb < n" and bn: "bb < n" and
    l4: "length (players st4) = n" and d4: "deck st4 = drop (2 * n) cards" and s4: "stage st4 = PreFlop" and
    p4: "\<forall>k<n. players st4 ! k =
         (players st ! k)\<lparr>holeCards := take 1 (drop k cards) @ take 1 (drop (n + k) cards),
            isFolded := False, isAllIn := False, currentBet := 0, totalBetInRound := 0\<rparr>"
    using start_trace[OF assms, of freshDeck "Some cards"] unfolding n_def by auto
  have h4: "holeCards (players st4 ! k) = take 1 (drop k cards) @ take 1 (drop (n + k) cards)"
    if "k < n" for k using p4 that by simp
  have e5: "Inr st5 = postBlind sb (smallBlind st) st4" using b1 by simp
  have st5: "length (players st5) = n \<and> deck st5 = deck st4 \<and> stage st5 = stage st4 \<and>
      (\<forall>k<n. holeCards (players st5 ! k) = holeCards (players st4 ! k))"
    using e5 sn l4 unfolding postBlind_eq[of sb st4 "smallBlind st", unfolded l4, OF sn]
    by (auto simp: nth_list_update)
  have e6: "Inr st6 = postBlind bb (bigBlind st) st5" using b2 by simp
  have l5: "length (players st5) = n" using st5 by simp
  have st6: "length (players st6) = n \<and> deck st6 = deck st5 \<and> stage st6 = stage st5 \<and>
      (\<forall>k<n. holeCards (players st6 ! k) = holeCards (players st5 ! k))"
    using e6 bn l5 unfolding postBlind_eq[of bb st5 "bigBlind st", unfolded l5, OF bn]
    by (auto simp: nth_list_update)
  show ?thesis
    unfolding res n_def[symmetric] using st5 st6 d4 s4 h4 by simp
qed

lemma decodeCard_fields:
  "rank (decodeCard v) = int (unat v div 4) + 2 \<and> suit (decodeCard v) = suitValues ! (unat v mod 4) \<and>
   unat v mod 4 < length suitValues"
  by (simp add: decodeCard_def Let_def suitValues_def)

text \<open>
  C10, as the engine has it. \<^verbatim>\<open>startNewHandWithPackedDeck\<close> throws exactly when the decoded
  input has fewer than 52 bytes. Otherwise the first 52 bytes become the cards, with rank
  \<open>byte div 4 + 2\<close> and suit index \<open>byte mod 4\<close>. With two or more players that are
  active and have chips the hand starts from these cards in order: seat \<open>k\<close> of \<open>n\<close> holds
  cards \<open>k\<close> and \<open>n + k\<close>, and the deck is what follows the first \<open>2n\<close>. With fewer, only
  the stage changes, to Showdown.
\<close>

theorem packed_deck_start:
  "(isl (startNewHandWithPackedDeck parseInt16 freshDeck packedDeck st)
      \<longleftrightarrow> length (decodePacked parseInt16 packedDeck) < 52) \<and>
   (52 \<le> length (decodePacked parseInt16 packedDeck) \<longrightarrow>
      (let decoded = decodePacked parseInt16 packedDeck;
           cards = map decodeCard (take 52 decoded);
           n = length (players st)
       in length cards = 52 \<and>
          (\<forall>k<52. rank (cards ! k) = int (unat (decoded ! k) div 4) + 2 \<and>
                   suit (cards ! k) = suitValues ! (unat (decoded ! k) mod 4)) \<and>
          (2 \<le> length (filter seated (players st)) \<longrightarrow>
             (\<exists>st'. startNewHandWithPackedDeck parseInt16 freshDeck packedDeck st = Inr st' \<and>
                    stage st' = PreFlop \<and> length (players st') = n \<and>
                    deck st' = drop (2 * n) cards \<and>
                    (\<forall>k<n. holeCards (players st' ! k) =
                              take 1 (drop k cards) @ take 1 (drop (n + k) cards)))) \<and>
          (length (filter seated (players st)) < 2 \<longrightarrow>
             startNewHandWithPackedDeck parseInt16 freshDeck packedDeck st
               = Inr (st\<lparr>stage := Showdown\<rparr>))))"
proof (intro conjI impI)
  show "isl (startNewHandWithPackedDeck parseInt16 freshDeck packedDeck st)
      \<longleftrightarrow> length (decodePacked parseInt16 packedDeck) < 52"
    using startNewHandInternal_Inr
    by (simp add: startNewHandWithPackedDeck_def Let_def)
next
  assume len: "52 \<le> length (decodePacked parseInt16 packedDeck)"
  define decoded where "decoded = decodePacked parseInt16 packedDeck"
  define cards where "cards = map decodeCard (take 52 decoded)"
  have eq: "startNewHandWithPackedDeck parseInt16 freshDeck packedDeck st
      = startNewHandInternal freshDeck (Some cards) st"
    using len by (simp add: startNewHandWithPackedDeck_def Let_def cards_def decoded_def)
  have l: "length cards = 52" using len by (simp add: cards_def decoded_def)
  have f: "\<forall>k<52. rank (cards ! k) = int (unat (decoded ! k) div 4) + 2 \<and>
                   suit (cards ! k) = suitValues ! (unat (decoded ! k) mod 4)"
    using len by (simp add: cards_def decoded_def decodeCard_fields)
  have g: "2 \<le> length (filter seated (players st)) \<longrightarrow>
       (\<exists>st'. startNewHandWithPackedDeck parseInt16 freshDeck packedDeck st = Inr st' \<and>
              stage st' = PreFlop \<and> length (players st') = length (players st) \<and>
              deck st' = drop (2 * length (players st)) cards \<and>
              (\<forall>k<length (players st). holeCards (players st' ! k) =
                    take 1 (drop k cards) @ take 1 (drop (length (players st) + k) cards)))"
    unfolding eq using startNewHandInternal_deals[of st freshDeck cards] by blast
  have h: "length (filter seated (players st)) < 2 \<longrightarrow>
       startNewHandWithPackedDeck parseInt16 freshDeck packedDeck st = Inr (st\<lparr>stage := Showdown\<rparr>)"
    unfolding eq by (simp add: startNewHandInternal_def Let_def)
  show "let decoded = decodePacked parseInt16 packedDeck;
           cards = map decodeCard (take 52 decoded);
           n = length (players st)
       in length cards = 52 \<and>
          (\<forall>k<52. rank (cards ! k) = int (unat (decoded ! k) div 4) + 2 \<and>
                   suit (cards ! k) = suitValues ! (unat (decoded ! k) mod 4)) \<and>
          (2 \<le> length (filter seated (players st)) \<longrightarrow>
             (\<exists>st'. startNewHandWithPackedDeck parseInt16 freshDeck packedDeck st = Inr st' \<and>
                    stage st' = PreFlop \<and> length (players st') = n \<and>
                    deck st' = drop (2 * n) cards \<and>
                    (\<forall>k<n. holeCards (players st' ! k) =
                              take 1 (drop k cards) @ take 1 (drop (n + k) cards)))) \<and>
          (length (filter seated (players st)) < 2 \<longrightarrow>
             startNewHandWithPackedDeck parseInt16 freshDeck packedDeck st
               = Inr (st\<lparr>stage := Showdown\<rparr>))"
    unfolding Let_def decoded_def[symmetric] cards_def[symmetric]
    using l f g h by blast
qed

theorem packed_deck_start_witness:
  "52 \<le> length (decodePacked (\<lambda>s. None) (Numbers (map int [0..<53]))) \<and>
   2 \<le> length (filter seated (players heads_up_table)) \<and>
   \<not> isl (startNewHandWithPackedDeck (\<lambda>s. None) [] (Numbers (map int [0..<53])) heads_up_table) \<and>
   startNewHandWithPackedDeck (\<lambda>s. None) [] (Numbers (map int [0..<53])) heads_up_table
     = Inr heads_up_preflop \<and>
   52 \<le> length (decodePacked (\<lambda>s. None) (Bytes ordered_bytes)) \<and>
   length (filter seated (players lonely_table)) < 2 \<and>
   startNewHandWithPackedDeck (\<lambda>s. None) [] (Bytes ordered_bytes) lonely_table
     = Inr (lonely_table\<lparr>stage := Showdown\<rparr>)"
proof -
  have l1: "52 \<le> length (decodePacked (\<lambda>s. None) (Numbers (map int [0..<53])))"
    by (simp add: decodePacked_def)
  have h1: "2 \<le> length (filter seated (players heads_up_table))"
    using heads_up_table_seated by simp
  have l2: "52 \<le> length (decodePacked (\<lambda>s. None) (Bytes ordered_bytes))"
    by (simp add: decodePacked_def ordered_bytes_def)
  have h2: "length (filter seated (players lonely_table)) < 2"
    by (simp add: lonely_table_def newEngine_def initializeGame_def)
  have r: "startNewHandWithPackedDeck (\<lambda>s. None) [] (Numbers (map int [0..<53])) heads_up_table
     = Inr heads_up_preflop"
    by code_simp
  note t1 = packed_deck_start[of "\<lambda>s. None" "[]" "Numbers (map int [0..<53])" heads_up_table]
  note t2 = packed_deck_start[of "\<lambda>s. None" "[]" "Bytes ordered_bytes" lonely_table]
  have a: "\<not> isl (startNewHandWithPackedDeck (\<lambda>s. None) [] (Numbers (map int [0..<53])) heads_up_table)"
    using t1 l1 by simp
  have b: "startNewHandWithPackedDeck (\<lambda>s. None) [] (Bytes ordered_bytes) lonely_table
     = Inr (lonely_table\<lparr>stage := Showdown\<rparr>)"
    using t2 l2 h2 unfolding Let_def by blast
  show ?thesis using l1 h1 a r l2 h2 b by blast
qed

text \<open>
  C10 as stated fails on a table with one player: the 52 bytes are accepted, no hand is
  started, no card is dealt and the deck of the state stays empty.
\<close>

theorem packed_deck_no_hand_counterexample:
  "52 \<le> length (decodePacked (\<lambda>s. None) (Bytes ordered_bytes)) \<and>
   startNewHandWithPackedDeck (\<lambda>s. None) [] (Bytes ordered_bytes) lonely_table
     = Inr (lonely_table\<lparr>stage := Showdown\<rparr>) \<and>
   deck (lonely_table\<lparr>stage := Showdown\<rparr>) = [] \<and>
   map holeCards (players (lonely_table\<lparr>stage := Showdown\<rparr>)) = [[]] \<and>
   pot (lonely_table\<lparr>stage := Showdown\<rparr>) = 0"
  by code_simp

section \<open>Further properties\<close>

subsection \<open>The side pots add up\<close>

lemma foldl_plus_sum_list:
  "foldl (\<lambda>sum x. sum + g x) a xs = a + sum_list (map g xs :: int list)"
  by (induction xs arbitrary: a) simp_all

lemma set_insert_by: "set (insert_by cmp x xs) = insert x (set xs)"
  by (induction xs) auto

lemma set_sort_by: "set (sort_by cmp xs) = set xs"
  by (induction xs) (simp_all add: sort_by_def set_insert_by)

lemma sorted_insert_by:
  "sorted xs \<Longrightarrow> sorted (insert_by (\<lambda>a b. a - b) (x :: int) xs)"
  by (induction xs) (auto simp: set_insert_by)

lemma sorted_sort_by: "sorted (sort_by (\<lambda>a b. a - b) (xs :: int list))"
  by (induction xs) (simp_all add: sort_by_def sorted_insert_by)

text \<open>The chips the players in \<open>ps\<close> have put in up to the level \<open>l\<close>.\<close>

lemma level_increment:
  assumes "previous \<le> amt"
  shows "sum_list (map (\<lambda>p. max 0 (min (totalBetInRound p) amt - previous)) ps)
       = sum_list (map (\<lambda>p. min (totalBetInRound p) amt) ps)
         - sum_list (map (\<lambda>p. min (totalBetInRound p) previous) ps)"
  using assms by (induction ps) auto

lemma above_level:
  "sum_list (map (\<lambda>p. max 0 (totalBetInRound p - previous)) ps)
       = sum_list (map totalBetInRound ps)
         - sum_list (map (\<lambda>p. min (totalBetInRound p) previous) ps)"
  by (induction ps) auto

lemma sidePotLoop_sum:
  assumes "sorted (previous # amts)"
  shows "sum_list (map amount (snd (sidePotLoop ps amts previous pots)))
           = sum_list (map amount pots)
             + sum_list (map (\<lambda>p. min (totalBetInRound p) (fst (sidePotLoop ps amts previous pots))) ps)
             - sum_list (map (\<lambda>p. min (totalBetInRound p) previous) ps)"
  using assms
proof (induction amts arbitrary: previous pots)
  case Nil
  then show ?case by simp
next
  case (Cons amt rest)
  have le: "previous \<le> amt" using Cons.prems by simp
  have srt: "sorted (amt # rest)" using Cons.prems by simp
  have nonneg: "0 \<le> sum_list (map (\<lambda>p. max 0 (min (totalBetInRound p) amt - previous)) ps)"
    by (rule sum_list_nonneg) auto
  show ?case
    using Cons.IH[OF srt] level_increment[OF le, of ps] nonneg
    by (simp add: Let_def foldl_plus_sum_list)
qed

text \<open>
  The amounts of the side pots add up to what the players who have not folded put in over
  the hand, as long as the sums are taken exactly (amounts that add up to \<open>2^53\<close> at most).
\<close>

theorem side_pots_sum:
  "sum_list (map amount (sidePots (calculateSidePots st)))
     = sum_list (map totalBetInRound
         (filter (\<lambda>p. \<not> isFolded p \<and> 0 < totalBetInRound p) (players st)))"
proof -
  define ap where "ap = filter (\<lambda>p. \<not> isFolded p \<and> 0 < totalBetInRound p) (players st)"
  define amts where "amts = sort_by (\<lambda>a b. a - b) (map totalBetInRound (filter isAllIn ap))"
  define looped where "looped = sidePotLoop ap amts 0 []"
  have pos: "\<forall>p\<in>set ap. 0 < totalBetInRound p" by (auto simp: ap_def)
  have "\<forall>a\<in>set amts. 0 \<le> a"
    using pos by (auto simp: amts_def set_sort_by)
  then have srt: "sorted (0 # amts)"
    by (simp add: amts_def sorted_sort_by)
  have zero: "sum_list (map (\<lambda>p. min (totalBetInRound p) 0) ap) = 0"
    using pos by (induction ap) auto
  have loop: "sum_list (map amount (snd looped))
      = sum_list (map (\<lambda>p. min (totalBetInRound p) (fst looped)) ap)"
    unfolding looped_def using sidePotLoop_sum[OF srt, of ap "[]"] zero by simp
  have main: "foldl (\<lambda>sum player. sum + max 0 (totalBetInRound player - fst looped)) 0 ap
      = sum_list (map totalBetInRound ap) - sum_list (map (\<lambda>p. min (totalBetInRound p) (fst looped)) ap)"
    by (simp add: foldl_plus_sum_list above_level)
  have mainpos: "0 \<le> foldl (\<lambda>sum player. sum + max 0 (totalBetInRound player - fst looped)) 0 ap"
    unfolding foldl_plus_sum_list by (simp, rule sum_list_nonneg) auto
  have "sum_list (map amount (sidePots (calculateSidePots st))) = sum_list (map totalBetInRound ap)"
    unfolding calculateSidePots_def Let_def ap_def[symmetric] amts_def[symmetric] looped_def[symmetric]
    using loop main mainpos by simp
  then show ?thesis by (simp add: ap_def)
qed

subsection \<open>The verification result\<close>

lemma verify_from_in_range:
  assumes "length dealtCards = length cardPositions"
    and "\<forall>j<length cardPositions. cardPositions ! j < 52"
  shows "verify_from shuffled dealtCards cardPositions i =
     Inr (\<forall>j. i \<le> j \<and> j < length dealtCards \<longrightarrow>
               shuffled ! unat (cardPositions ! j) = dealtCards ! j)"
  using assms
proof (induction shuffled dealtCards cardPositions i rule: verify_from.induct)
  case (1 shuffled dealtCards cardPositions i)
  show ?case
  proof (cases "i < length dealtCards")
    case False
    then have "verify_from shuffled dealtCards cardPositions i = Inr True"
      by (subst verify_from.simps) simp
    moreover have "\<forall>j. i \<le> j \<and> j < length dealtCards \<longrightarrow>
               shuffled ! unat (cardPositions ! j) = dealtCards ! j"
      using False by auto
    ultimately show ?thesis by simp
  next
    case True
    then have r: "cardPositions ! i < 52" using 1(2,3) by simp
    show ?thesis
    proof (cases "shuffled ! unat (cardPositions ! i) = dealtCards ! i")
      case False
      then have "verify_from shuffled dealtCards cardPositions i = Inr False"
        using True r by (subst verify_from.simps) (simp add: Let_def)
      moreover have "\<not> (\<forall>j. i \<le> j \<and> j < length dealtCards \<longrightarrow>
               shuffled ! unat (cardPositions ! j) = dealtCards ! j)"
        using False True by auto
      ultimately show ?thesis by simp
    next
      case m: True
      have "verify_from shuffled dealtCards cardPositions i
          = verify_from shuffled dealtCards cardPositions (i + 1)"
        using True r m by (subst verify_from.simps) (simp add: Let_def)
      also have "\<dots> = Inr (\<forall>j. i + 1 \<le> j \<and> j < length dealtCards \<longrightarrow>
               shuffled ! unat (cardPositions ! j) = dealtCards ! j)"
        using "1.IH"[OF True refl] r m 1(2,3) by simp
      also have "(\<forall>j. i + 1 \<le> j \<and> j < length dealtCards \<longrightarrow>
               shuffled ! unat (cardPositions ! j) = dealtCards ! j)
          = (\<forall>j. i \<le> j \<and> j < length dealtCards \<longrightarrow>
               shuffled ! unat (cardPositions ! j) = dealtCards ! j)"
        using m by (metis Suc_eq_plus1 Suc_leI le_neq_implies_less Suc_leD)
      finally show ?thesis .
    qed
  qed
qed

text \<open>
  A reveal of the committed salt with every claimed position in range returns a verdict,
  which is \<open>true\<close> exactly when every claimed card is the card of the replayed deck at its
  position; the session is ended and keeps the verdict, the salt and its commitment.
\<close>

theorem reveal_verdict:
  assumes "vrfFulfilled (games st gameId)" and "\<not> gameEnded (games st gameId)"
    and "keccak (encodePacked_bytes32 salt) = saltHash (games st gameId)"
    and "length dealtCards = length cardPositions"
    and "\<forall>j<length cardPositions. cardPositions ! j < 52"
  shows "\<exists>st'. revealAndVerify keccak gameId salt dealtCards cardPositions st
            = Inr (\<forall>j<length cardPositions.
                     shuffle keccak (keccak (encodePacked_bytes32_bytes32 (pythSeed (games st gameId)) salt))
                       ! unat (cardPositions ! j) = dealtCards ! j, st') \<and>
          gameEnded (games st' gameId) \<and> revealedSalt (games st' gameId) = salt \<and>
          saltHash (games st' gameId) = saltHash (games st gameId) \<and>
          verified (games st' gameId) =
            (\<forall>j<length cardPositions.
                     shuffle keccak (keccak (encodePacked_bytes32_bytes32 (pythSeed (games st gameId)) salt))
                       ! unat (cardPositions ! j) = dealtCards ! j)"
proof -
  let ?deck = "shuffle keccak (keccak (encodePacked_bytes32_bytes32 (pythSeed (games st gameId)) salt))"
  have v: "verify_from ?deck dealtCards cardPositions 0 =
      Inr (\<forall>j<length cardPositions. ?deck ! unat (cardPositions ! j) = dealtCards ! j)"
    using verify_from_in_range[OF assms(4,5), of ?deck 0] assms(4) by simp
  show ?thesis
    using assms(1-4) by (simp add: revealAndVerify_def Let_def v)
qed

theorem reveal_verdict_witness:
  "vrfFulfilled (games example_ledger 1) \<and> \<not> gameEnded (games example_ledger 1) \<and>
   example_keccak (encodePacked_bytes32 7) = saltHash (games example_ledger 1) \<and>
   length [255 :: uint8] = length [0 :: uint8] \<and> [0 :: uint8] ! 0 < 52 \<and>
   (\<exists>st'. revealAndVerify example_keccak 1 7 [255] [0] example_ledger = Inr (False, st') \<and>
          gameEnded (games st' 1) \<and> \<not> verified (games st' 1))"
proof -
  let ?deck = "shuffle example_keccak (example_keccak (encodePacked_bytes32_bytes32 (pythSeed (games example_ledger 1)) 7))"
  have h1: "vrfFulfilled (games example_ledger 1)" by (simp add: example_ledger_def)
  have h2: "\<not> gameEnded (games example_ledger 1)" by (simp add: example_ledger_def)
  have h3: "example_keccak (encodePacked_bytes32 7) = saltHash (games example_ledger 1)"
    by (simp add: example_ledger_def example_keccak_def)
  have h4: "length [255 :: uint8] = length [0 :: uint8]" by simp
  have h5: "\<forall>j<length [0 :: uint8]. [0 :: uint8] ! j < 52" by simp
  have "?deck ! 0 < 52" by (rule shuffle_nth_less) simp
  then have ne: "?deck ! 0 \<noteq> 255" by auto
  then have f: "(\<forall>j<length [0 :: uint8]. ?deck ! unat ([0 :: uint8] ! j) = [255] ! j) = False"
    by simp
  from reveal_verdict[where st = example_ledger and gameId = 1 and keccak = example_keccak
      and salt = 7 and dealtCards = "[255]" and cardPositions = "[0]", OF h1 h2 h3 h4 h5]
  obtain st' where
    "revealAndVerify example_keccak 1 7 [255] [0] example_ledger
       = Inr (\<forall>j<length [0 :: uint8]. ?deck ! unat ([0 :: uint8] ! j) = [255] ! j, st')"
    "gameEnded (games st' 1)"
    "verified (games st' 1) = (\<forall>j<length [0 :: uint8]. ?deck ! unat ([0 :: uint8] ! j) = [255] ! j)"
    by blast
  then have "revealAndVerify example_keccak 1 7 [255] [0] example_ledger = Inr (False, st') \<and>
          gameEnded (games st' 1) \<and> \<not> verified (games st' 1)"
    unfolding f by simp
  then show ?thesis using h1 h2 h3 by auto
qed

subsection \<open>Folding down to one player\<close>

lemma length_filter_update:
  "i < length xs \<Longrightarrow> P (xs ! i) \<Longrightarrow> \<not> P y \<Longrightarrow>
   Suc (length (filter P (xs[i := y]))) = length (filter P xs)"
proof (induction xs arbitrary: i)
  case Nil
  then show ?case by simp
next
  case (Cons x xs)
  then show ?case by (cases i) auto
qed

text \<open>
  When two players are left in the hand and one of them folds, the stage becomes Showdown at
  once: no card is dealt and no chip moves.
\<close>

theorem fold_to_one_ends_hand:
  assumes "playerId < length (players st)"
    and "\<not> isFolded (players st ! playerId)" and "\<not> isAllIn (players st ! playerId)"
    and "stage st \<noteq> Showdown"
    and "length (filter (\<lambda>p. \<not> isFolded p) (players st)) = 2"
  shows "\<exists>st'. fold_hand playerId st = Inr st' \<and> stage st' = Showdown \<and>
           isFolded (players st' ! playerId) \<and>
           length (filter (\<lambda>p. \<not> isFolded p) (players st')) = 1 \<and>
           communityCards st' = communityCards st \<and> deck st' = deck st \<and> pot st' = pot st \<and>
           map chips (players st') = map chips (players st)"
proof -
  let ?ps = "(players st)[playerId := (players st ! playerId)\<lparr>isFolded := True\<rparr>]"
  have "Suc (length (filter (\<lambda>p. \<not> isFolded p) ?ps)) = length (filter (\<lambda>p. \<not> isFolded p) (players st))"
    by (rule length_filter_update) (use assms in simp_all)
  then have one: "length (filter (\<lambda>p. \<not> isFolded p) ?ps) = 1" using assms(5) by simp
  have c: "map chips ?ps = map chips (players st)"
    using assms(1) by (simp add: map_update list_update_same_conv)
  show ?thesis
    using assms(1-4) one c
    by (simp add: fold_hand_def nth_opt_def Let_def postActionHandler_def addLog_def)
qed

theorem fold_to_one_ends_hand_witness:
  "(1::nat) < length (players heads_up_preflop) \<and>
   \<not> isFolded (players heads_up_preflop ! 1) \<and> \<not> isAllIn (players heads_up_preflop ! 1) \<and>
   stage heads_up_preflop \<noteq> Showdown \<and>
   length (filter (\<lambda>p. \<not> isFolded p) (players heads_up_preflop)) = 2 \<and>
   (\<exists>st'. fold_hand 1 heads_up_preflop = Inr st' \<and> stage st' = Showdown \<and>
           isFolded (players st' ! 1) \<and> pot st' = 30)"
proof -
  have h: "(1::nat) < length (players heads_up_preflop)"
    "\<not> isFolded (players heads_up_preflop ! 1)" "\<not> isAllIn (players heads_up_preflop ! 1)"
    "stage heads_up_preflop \<noteq> Showdown"
    "length (filter (\<lambda>p. \<not> isFolded p) (players heads_up_preflop)) = 2"
    "pot heads_up_preflop = 30"
    by (simp_all add: heads_up_preflop_def)
  from fold_to_one_ends_hand[OF h(1-5)] h show ?thesis by auto
qed

subsection \<open>A royal flush against a straight flush\<close>

lemma evaluateHand_king_high_straight_flush:
  "evaluateHand king_high_straight_flush = Inr king_high_straight_flush_eval"
  by code_simp

text \<open>
  The royal flush in spades is ranked above the king-high straight flush in hearts, and wins.
\<close>

theorem royal_flush_beats_straight_flush:
  "evaluateHand royal_hand = Inr royal_eval \<and> handRank royal_eval = RoyalFlush \<and>
   evaluateHand king_high_straight_flush = Inr king_high_straight_flush_eval \<and>
   handRank king_high_straight_flush_eval = StraightFlush \<and>
   selectWinners [(0, king_high_straight_flush_eval), (1, royal_eval)] = [1]"
proof -
  have "selectWinners [(0, king_high_straight_flush_eval), (1, royal_eval)] = [1]"
    by code_simp
  then show ?thesis
    using evaluateHand_royal evaluateHand_king_high_straight_flush
    by (simp add: royal_eval_def king_high_straight_flush_eval_def)
qed

end
